theory Spec2Isabelle
  imports Complex_Main "HOL-Library.Word"
begin

section \<open>The JACK device of xwax (jack.c)\<close>

text \<open>
  A shallow embedding of \<^verbatim>\<open>jack.c\<close>: the sample format converter
  (\<^verbatim>\<open>interleave\<close>, \<^verbatim>\<open>uninterleave\<close>), the per-deck processing
  (\<^verbatim>\<open>process_deck\<close>), the process callback, the client start-up, the port
  registration and \<^verbatim>\<open>jack_init\<close>.

  The file-level variables of \<^verbatim>\<open>jack.c\<close> (\<^verbatim>\<open>client\<close>, \<^verbatim>\<open>rate\<close>,
  \<^verbatim>\<open>decks\<close>, \<^verbatim>\<open>device\<close>) are the fields of a state record that every
  function takes and returns. The JACK library, \<^verbatim>\<open>malloc\<close> and the player are outside
  the file: what they answer is a parameter (an environment record), and the calls made to
  them are appended to a trace kept in the state. A failed \<^verbatim>\<open>assert\<close>, a null pointer
  dereference and an access outside an array end the run with an error and the state reached.
\<close>

subsection \<open>Constants\<close>

definition MAX_DECKS :: nat where
  "MAX_DECKS = 4"

definition SCALE :: int where
  "SCALE = 32768"

text \<open>
  \<^verbatim>\<open>DEVICE_CHANNELS\<close> comes from \<^verbatim>\<open>device.h\<close>; \<^verbatim>\<open>register_ports\<close> asserts
  that it is 2.
\<close>

definition DEVICE_CHANNELS :: nat where
  "DEVICE_CHANNELS = 2"

text \<open>The local array \<^verbatim>\<open>signed short buf[1024 * 2]\<close> of \<^verbatim>\<open>process_deck\<close>.\<close>

definition BUF_LEN :: nat where
  "BUF_LEN = 1024 * 2"

text \<open>The local array \<^verbatim>\<open>char port_name[32]\<close> of \<^verbatim>\<open>register_ports\<close>.\<close>

definition PORT_NAME_LEN :: nat where
  "PORT_NAME_LEN = 32"

definition channel :: "char list" where
  "channel = [CHR ''L'', CHR ''R'']"

subsection \<open>Data\<close>

datatype error = AssertFailed | OutOfBounds | NullDeref

text \<open>
  A \<^verbatim>\<open>jack_default_audio_sample_t\<close> is a \<^verbatim>\<open>float\<close>. A sample is modelled as the
  real number a finite float denotes: the two operations applied to it, the product with
  \<open>2 ^ 15\<close> and the quotient of a 16-bit integer by \<open>2 ^ 15\<close>, are exact in binary
  floating point, so no rounding of the float arithmetic is lost. The infinities and NaN are
  not values of the model: every statement below is about finite samples.
\<close>

type_synonym sample = real
type_synonym s16 = "16 word"

type_synonym port = nat
type_synonym client = nat
type_synonym dev_ptr = nat

text \<open>
  A pointer to a sample: the port whose buffer it points into and the index there.
  The buffers themselves are the server's memory, a map from ports.
\<close>

type_synonym jptr = "port \<times> nat"
type_synonym memory = "port \<rightharpoonup> sample list"

record jack_t =
  input_port :: "port option list"
  output_port :: "port option list"

datatype hook = Hook_start | Hook_stop | Hook_clear

text \<open>
  The fields of \<^verbatim>\<open>struct device_t\<close> (\<^verbatim>\<open>device.h\<close>) that \<^verbatim>\<open>jack.c\<close> uses.
  The three function pointers \<^verbatim>\<open>start\<close>, \<^verbatim>\<open>stop\<close> and \<^verbatim>\<open>clear\<close> hold the
  address of a function of \<^verbatim>\<open>jack.c\<close> or nothing.
\<close>

record device_t =
  local :: "jack_t option"
  pollfds :: "nat option"
  handle :: "nat option"
  start_hook :: "hook option"
  stop_hook :: "hook option"
  clear_hook :: "hook option"
  timecoder :: "nat option"
  player :: nat

datatype port_flags = JackPortIsInput | JackPortIsOutput

text \<open>
  The calls that leave \<^verbatim>\<open>jack.c\<close>, in the order made. \<open>Process_deck\<close> is not a
  call to the outside: it records that \<^verbatim>\<open>process_deck\<close> was entered, with its
  arguments.
\<close>

datatype event =
    Client_open string
  | Set_process_callback client
  | On_shutdown client
  | Port_register "client option" string port_flags
  | Timecoder_submit nat "s16 list" nat int
  | Player_collect nat nat int
  | Process_deck "dev_ptr option" nat

text \<open>
  What the outside answers, given the calls made so far: \<^verbatim>\<open>jack_client_open\<close> gives a
  client or \<^verbatim>\<open>NULL\<close> and the status bits, \<^verbatim>\<open>jack_get_sample_rate\<close> a
  \<^verbatim>\<open>jack_nframes_t\<close> (32 bits, unsigned), \<^verbatim>\<open>jack_port_register\<close> a port or
  \<^verbatim>\<open>NULL\<close>, \<^verbatim>\<open>malloc\<close> succeeds or not, and \<^verbatim>\<open>player_collect\<close> gives the
  samples it writes at the start of the buffer it is handed.
\<close>

record env =
  jack_client_open :: "event list \<Rightarrow> client option \<times> nat"
  jack_set_process_callback :: "event list \<Rightarrow> int"
  jack_get_sample_rate :: "event list \<Rightarrow> 32 word"
  malloc :: "event list \<Rightarrow> bool"
  jack_port_register :: "event list \<Rightarrow> string \<Rightarrow> port option"
  player_collect :: "event list \<Rightarrow> nat \<Rightarrow> nat \<Rightarrow> int \<Rightarrow> s16 list"

text \<open>
  The variables \<^verbatim>\<open>client\<close>, \<^verbatim>\<open>rate\<close>, \<^verbatim>\<open>decks\<close> and \<^verbatim>\<open>device\<close> of
  \<^verbatim>\<open>jack.c\<close>, the device records the pointers of \<^verbatim>\<open>device\<close> point to, the
  buffers of the ports in the current cycle, and the trace.
\<close>

record jack_state =
  client :: "client option"
  rate :: int
  decks :: nat
  device :: "dev_ptr option list"
  devices :: "dev_ptr \<rightharpoonup> device_t"
  port_buffers :: memory
  trace :: "event list"

text \<open>The state when the program starts: the variables hold their initialisers.\<close>

definition init_state :: "(dev_ptr \<rightharpoonup> device_t) \<Rightarrow> memory \<Rightarrow> jack_state" where
  "init_state ds m =
     \<lparr>client = None, rate = 0, decks = 0, device = replicate MAX_DECKS None,
      devices = ds, port_buffers = m, trace = []\<rparr>"

text \<open>
  A run either aborts (left) or returns a value (right); both carry the state reached.
\<close>

type_synonym 'a res = "(error \<times> jack_state) + ('a \<times> jack_state)"

definition ret_val :: "'a res \<Rightarrow> 'a option" where
  "ret_val r = (case r of Inl _ \<Rightarrow> None | Inr (v, _) \<Rightarrow> Some v)"

definition aborted :: "'a res \<Rightarrow> error option" where
  "aborted r = (case r of Inl (e, _) \<Rightarrow> Some e | Inr _ \<Rightarrow> None)"

definition end_state :: "'a res \<Rightarrow> jack_state" where
  "end_state r = (case r of Inl (_, s) \<Rightarrow> s | Inr (_, s) \<Rightarrow> s)"

subsection \<open>Sample format conversion\<close>

text \<open>
  The cast \<^verbatim>\<open>(signed short)\<close> of a float drops the fraction (towards zero). For a value
  outside the range of \<^verbatim>\<open>signed short\<close> the C standard leaves the result undefined;
  there the model follows the compiled conversion, which goes through a 32-bit integer
  register and stores its low 16 bits: a truncated value that fits 32 bits keeps its low
  16 bits (wrap-around, no clamping), and one that does not fit 32 bits gives the
  register the pattern \<open>0x80000000\<close>, whose low 16 bits are 0.
\<close>

definition trunc_zero :: "real \<Rightarrow> int" where
  "trunc_zero x = (if 0 \<le> x then \<lfloor>x\<rfloor> else \<lceil>x\<rceil>)"

definition to_short :: "real \<Rightarrow> s16" where
  "to_short x =
     (if - 2147483648 \<le> trunc_zero x \<and> trunc_zero x \<le> 2147483647
      then word_of_int (trunc_zero x) else 0)"

definition from_short :: "s16 \<Rightarrow> sample" where
  "from_short w = real_of_int (sint w) / real_of_int SCALE"

definition load :: "memory \<Rightarrow> jptr \<Rightarrow> error + sample" where
  "load m p =
     (case m (fst p) of
        None \<Rightarrow> Inl NullDeref
      | Some xs \<Rightarrow> if snd p < length xs then Inr (xs ! snd p) else Inl OutOfBounds)"

definition store :: "memory \<Rightarrow> jptr \<Rightarrow> sample \<Rightarrow> error + memory" where
  "store m p v =
     (case m (fst p) of
        None \<Rightarrow> Inl NullDeref
      | Some xs \<Rightarrow>
          if snd p < length xs then Inr (m(fst p \<mapsto> xs[snd p := v])) else Inl OutOfBounds)"

definition incr :: "jptr \<Rightarrow> jptr" where
  "incr p = (fst p, Suc (snd p))"

text \<open>
  The inner loop of \<^verbatim>\<open>interleave\<close>, from channel \<open>n\<close> on. The pointer \<^verbatim>\<open>buf\<close> is
  the array \<open>buf\<close> and the index \<open>i\<close> into it.
\<close>

function interleave_channels ::
  "memory \<Rightarrow> nat \<Rightarrow> s16 list \<Rightarrow> nat \<Rightarrow> jptr list \<Rightarrow> error + (s16 list \<times> nat \<times> jptr list)" where
  "interleave_channels m n buf i jbuf =
     (if n < DEVICE_CHANNELS then
        (if n < length jbuf then
           (case load m (jbuf ! n) of
              Inl e \<Rightarrow> Inl e
            | Inr v \<Rightarrow>
                if i < length buf then
                  interleave_channels m (Suc n)
                    (buf[i := to_short (v * real_of_int SCALE)]) (Suc i)
                    (jbuf[n := incr (jbuf ! n)])
                else Inl OutOfBounds)
         else Inl OutOfBounds)
      else Inr (buf, i, jbuf))"
  by pat_completeness auto
termination
  by (relation "measure (\<lambda>(m, n, buf, i, jbuf). DEVICE_CHANNELS - n)") auto

declare interleave_channels.simps [simp del]

fun interleave ::
  "memory \<Rightarrow> s16 list \<Rightarrow> nat \<Rightarrow> jptr list \<Rightarrow> nat \<Rightarrow> error + (s16 list \<times> nat \<times> jptr list)" where
  "interleave m buf i jbuf 0 = Inr (buf, i, jbuf)"
| "interleave m buf i jbuf (Suc nframes) =
     (case interleave_channels m 0 buf i jbuf of
        Inl e \<Rightarrow> Inl e
      | Inr (buf', i', jbuf') \<Rightarrow> interleave m buf' i' jbuf' nframes)"

function uninterleave_channels ::
  "memory \<Rightarrow> nat \<Rightarrow> jptr list \<Rightarrow> s16 list \<Rightarrow> nat \<Rightarrow> error + (memory \<times> nat \<times> jptr list)" where
  "uninterleave_channels m n jbuf buf i =
     (if n < DEVICE_CHANNELS then
        (if n < length jbuf then
           (if i < length buf then
              (case store m (jbuf ! n) (from_short (buf ! i)) of
                 Inl e \<Rightarrow> Inl e
               | Inr m' \<Rightarrow>
                   uninterleave_channels m' (Suc n) (jbuf[n := incr (jbuf ! n)]) buf (Suc i))
            else Inl OutOfBounds)
         else Inl OutOfBounds)
      else Inr (m, i, jbuf))"
  by pat_completeness auto
termination
  by (relation "measure (\<lambda>(m, n, jbuf, buf, i). DEVICE_CHANNELS - n)") auto

declare uninterleave_channels.simps [simp del]

fun uninterleave ::
  "memory \<Rightarrow> jptr list \<Rightarrow> s16 list \<Rightarrow> nat \<Rightarrow> nat \<Rightarrow> error + (memory \<times> nat \<times> jptr list)" where
  "uninterleave m jbuf buf i 0 = Inr (m, i, jbuf)"
| "uninterleave m jbuf buf i (Suc nframes) =
     (case uninterleave_channels m 0 jbuf buf i of
        Inl e \<Rightarrow> Inl e
      | Inr (m', i', jbuf') \<Rightarrow> uninterleave m' jbuf' buf i' nframes)"

subsection \<open>Processing one deck\<close>

text \<open>
  \<^verbatim>\<open>jack_port_get_buffer\<close>: a pointer to the start of the port's buffer, or
  \<^verbatim>\<open>NULL\<close> when the server has none for it.
\<close>

definition jack_port_get_buffer :: "memory \<Rightarrow> port option \<Rightarrow> jptr option" where
  "jack_port_get_buffer m p =
     (case p of
        None \<Rightarrow> None
      | Some q \<Rightarrow> (case m q of None \<Rightarrow> None | Some _ \<Rightarrow> Some (q, 0)))"

text \<open>
  The two loops of \<^verbatim>\<open>process_deck\<close> that fetch the buffers of the input ports and
  of the output ports and assert each to be there, from channel \<open>n\<close> on.
\<close>

function get_buffers :: "memory \<Rightarrow> port option list \<Rightarrow> nat \<Rightarrow> jptr list \<Rightarrow> error + jptr list" where
  "get_buffers m ports n jbuf =
     (if n < DEVICE_CHANNELS then
        (if n < length ports \<and> n < length jbuf then
           (case jack_port_get_buffer m (ports ! n) of
              None \<Rightarrow> Inl AssertFailed
            | Some p \<Rightarrow> get_buffers m ports (Suc n) (jbuf[n := p]))
         else Inl OutOfBounds)
      else Inr jbuf)"
  by pat_completeness auto
termination
  by (relation "measure (\<lambda>(m, ports, n, jbuf). DEVICE_CHANNELS - n)") auto

declare get_buffers.simps [simp del]

text \<open>
  \<^verbatim>\<open>player_collect\<close> writes its samples from the start of the buffer it is handed.
\<close>

definition write_pcm :: "s16 list \<Rightarrow> s16 list \<Rightarrow> error + s16 list" where
  "write_pcm buf pcm =
     (if length pcm \<le> length buf then Inr (pcm @ drop (length pcm) buf) else Inl OutOfBounds)"

definition process_deck :: "env \<Rightarrow> dev_ptr option \<Rightarrow> nat \<Rightarrow> jack_state \<Rightarrow> unit res" where
  "process_deck E dv nframes st0 =
     (let st = st0\<lparr>trace := trace st0 @ [Process_deck dv nframes]\<rparr>;
          buf0 = replicate BUF_LEN 0;
          jbuf0 = replicate DEVICE_CHANNELS (0, 0)
      in
      case dv of
        None \<Rightarrow> Inl (NullDeref, st)
      | Some a \<Rightarrow>
      (case devices st a of
        None \<Rightarrow> Inl (NullDeref, st)
      | Some d \<Rightarrow>
      (case local d of
        None \<Rightarrow> Inl (NullDeref, st)
      | Some jack \<Rightarrow>
      (case get_buffers (port_buffers st) (input_port jack) 0 jbuf0 of
        Inl e \<Rightarrow> Inl (e, st)
      | Inr jbuf \<Rightarrow>
      (case interleave (port_buffers st) buf0 0 jbuf nframes of
        Inl e \<Rightarrow> Inl (e, st)
      | Inr (buf, _, jbuf1) \<Rightarrow>
      (let st1 = (case timecoder d of
                    None \<Rightarrow> st
                  | Some tc \<Rightarrow>
                      st\<lparr>trace := trace st @ [Timecoder_submit tc buf nframes (rate st)]\<rparr>)
       in
       case get_buffers (port_buffers st1) (output_port jack) 0 jbuf1 of
         Inl e \<Rightarrow> Inl (e, st1)
       | Inr jbuf2 \<Rightarrow>
       (let pcm = player_collect E (trace st1) (player d) nframes (rate st1);
            st2 = st1\<lparr>trace := trace st1 @ [Player_collect (player d) nframes (rate st1)]\<rparr>
        in
        case write_pcm buf pcm of
          Inl e \<Rightarrow> Inl (e, st2)
        | Inr buf' \<Rightarrow>
        (case uninterleave (port_buffers st2) jbuf2 buf' 0 nframes of
          Inl e \<Rightarrow> Inl (e, st2)
        | Inr (m', _, _) \<Rightarrow> Inr ((), st2\<lparr>port_buffers := m'\<rparr>)))))))))"

subsection \<open>The process callback\<close>

lemma process_deck_decks:
  "process_deck E dv nframes st = Inr (u, st') \<Longrightarrow> decks st' = decks st"
  by (auto simp: process_deck_def Let_def split: option.splits sum.splits prod.splits)

text \<open>
  The loop of \<^verbatim>\<open>process_callback\<close>, from deck \<open>n\<close> on; \<^verbatim>\<open>decks\<close> and
  \<^verbatim>\<open>device\<close> are read from the state at every turn, as the C reads the variables.
\<close>

function process_callback_loop :: "env \<Rightarrow> nat \<Rightarrow> nat \<Rightarrow> jack_state \<Rightarrow> unit res" where
  "process_callback_loop E n nframes st =
     (if n < decks st then
        (if n < length (device st) then
           (case process_deck E (device st ! n) nframes st of
              Inl x \<Rightarrow> Inl x
            | Inr (u, st') \<Rightarrow> process_callback_loop E (Suc n) nframes st')
         else Inl (OutOfBounds, st))
      else Inr ((), st))"
  by pat_completeness auto
termination
  by (relation "measure (\<lambda>(E, n, nframes, st). decks st - n)")
    (auto dest: process_deck_decks)

declare process_callback_loop.simps [simp del]

definition process_callback :: "env \<Rightarrow> nat \<Rightarrow> jack_state \<Rightarrow> int res" where
  "process_callback E nframes st =
     (case process_callback_loop E 0 nframes st of
        Inl x \<Rightarrow> Inl x
      | Inr (u, st') \<Rightarrow> Inr (0, st'))"

subsection \<open>Starting the client\<close>

definition start_jack_client :: "env \<Rightarrow> jack_state \<Rightarrow> int res" where
  "start_jack_client E st0 =
     (let c = fst (jack_client_open E (trace st0));
          st = st0\<lparr>client := c, trace := trace st0 @ [Client_open ''xwax'']\<rparr>
      in
      case c of
        None \<Rightarrow> Inr (- 1, st)
      | Some cl \<Rightarrow>
          (let r = jack_set_process_callback E (trace st);
               st1 = st\<lparr>trace := trace st @ [Set_process_callback cl]\<rparr>
           in
           if r \<noteq> 0 then Inr (- 1, st1)
           else
             (let st2 = st1\<lparr>trace := trace st1 @ [On_shutdown cl]\<rparr>
              in Inr (0, st2\<lparr>rate := sint (jack_get_sample_rate E (trace st2))\<rparr>))))"

subsection \<open>Registering the ports of a deck\<close>

definition NUL :: char where
  "NUL = CHR 0x00"

text \<open>
  \<^verbatim>\<open>sprintf\<close> writes the formatted bytes and the terminating zero byte into the array
  from its start; a byte past the end of the array is an access out of bounds.
\<close>

fun write_bytes :: "char list \<Rightarrow> nat \<Rightarrow> char list \<Rightarrow> error + char list" where
  "write_bytes buf i [] = Inr buf"
| "write_bytes buf i (c # cs) =
     (if i < length buf then write_bytes (buf[i := c]) (Suc i) cs else Inl OutOfBounds)"

definition sprintf :: "char list \<Rightarrow> string \<Rightarrow> error + char list" where
  "sprintf buf s = write_bytes buf 0 (s @ [NUL])"

text \<open>The string a \<^verbatim>\<open>char\<close> array holds: the bytes before the first zero byte.\<close>

definition c_str :: "char list \<Rightarrow> string" where
  "c_str buf = takeWhile (\<lambda>c. c \<noteq> NUL) buf"

text \<open>The loop of \<^verbatim>\<open>register_ports\<close>, from channel \<open>n\<close> on.\<close>

function register_ports_loop ::
  "env \<Rightarrow> nat \<Rightarrow> char list \<Rightarrow> jack_t \<Rightarrow> string \<Rightarrow> jack_state \<Rightarrow> (int \<times> jack_t) res" where
  "register_ports_loop E n port_name jack name st =
     (if n < DEVICE_CHANNELS then
        (if n < length channel \<and> n < length (input_port jack) \<and> n < length (output_port jack) then
           (case sprintf port_name (name @ ''_timecode_'' @ [channel ! n]) of
              Inl e \<Rightarrow> Inl (e, st)
            | Inr pn1 \<Rightarrow>
                (let p = jack_port_register E (trace st) (c_str pn1);
                     st1 = st\<lparr>trace := trace st @
                             [Port_register (client st) (c_str pn1) JackPortIsInput]\<rparr>;
                     jack1 = jack\<lparr>input_port := (input_port jack)[n := p]\<rparr>
                 in
                 if p = None then Inr ((- 1, jack1), st1)
                 else
                   (case sprintf pn1 (name @ ''_playback_'' @ [channel ! n]) of
                      Inl e \<Rightarrow> Inl (e, st1)
                    | Inr pn2 \<Rightarrow>
                        (let q = jack_port_register E (trace st1) (c_str pn2);
                             st2 = st1\<lparr>trace := trace st1 @
                                     [Port_register (client st1) (c_str pn2) JackPortIsOutput]\<rparr>;
                             jack2 = jack1\<lparr>output_port := (output_port jack1)[n := q]\<rparr>
                         in
                         if q = None then Inr ((- 1, jack2), st2)
                         else register_ports_loop E (Suc n) pn2 jack2 name st2))))
         else Inl (OutOfBounds, st))
      else Inr ((0, jack), st))"
  by pat_completeness auto
termination
  by (relation "measure (\<lambda>(E, n, port_name, jack, name, st). DEVICE_CHANNELS - n)") auto

declare register_ports_loop.simps [simp del]

definition register_ports :: "env \<Rightarrow> jack_t \<Rightarrow> string \<Rightarrow> jack_state \<Rightarrow> (int \<times> jack_t) res" where
  "register_ports E jack name st =
     (if DEVICE_CHANNELS \<noteq> 2 then Inl (AssertFailed, st)
      else register_ports_loop E 0 (replicate PORT_NAME_LEN NUL) jack name st)"

subsection \<open>Initialising a deck\<close>

text \<open>
  \<^verbatim>\<open>jack_init\<close>. The device \<^verbatim>\<open>dv\<close> is the address of a device record; the block
  \<^verbatim>\<open>malloc\<close> returns is a \<^verbatim>\<open>struct jack_t\<close> whose ports are not yet set.
\<close>

definition jack_init :: "env \<Rightarrow> dev_ptr \<Rightarrow> string \<Rightarrow> jack_state \<Rightarrow> int res" where
  "jack_init E dv name st0 =
     (case (if client st0 = None then start_jack_client E st0 else Inr (0, st0)) of
        Inl x \<Rightarrow> Inl x
      | Inr (r, st) \<Rightarrow>
          if r = - 1 then Inr (- 1, st)
          else if \<not> malloc E (trace st) then Inr (- 1, st)
          else
            (case register_ports E
                    \<lparr>input_port = replicate DEVICE_CHANNELS None,
                     output_port = replicate DEVICE_CHANNELS None\<rparr> name st of
               Inl x \<Rightarrow> Inl x
             | Inr ((r', jack), st1) \<Rightarrow>
                 if r' = - 1 then Inr (- 1, st1)
                 else
                   (case devices st1 dv of
                      None \<Rightarrow> Inl (NullDeref, st1)
                    | Some d \<Rightarrow>
                        (let st2 = st1\<lparr>devices := (devices st1)(dv \<mapsto>
                                     d\<lparr>local := Some jack, pollfds := None, handle := None,
                                       start_hook := Some Hook_start,
                                       stop_hook := Some Hook_stop,
                                       clear_hook := Some Hook_clear\<rparr>)\<rparr>
                         in
                         if \<not> decks st2 < MAX_DECKS then Inl (AssertFailed, st2)
                         else if \<not> decks st2 < length (device st2) then Inl (OutOfBounds, st2)
                         else Inr (0, st2\<lparr>device := (device st2)[decks st2 := Some dv],
                                          decks := decks st2 + 1\<rparr>)))))"

subsection \<open>Auxiliary definitions for the statements\<close>

text \<open>
  The two registrations \<^verbatim>\<open>register_ports\<close> makes for channel \<open>k\<close>, as events.
\<close>

definition port_events :: "client option \<Rightarrow> string \<Rightarrow> nat \<Rightarrow> event list" where
  "port_events c name k =
     [Port_register c (name @ ''_timecode_'' @ [channel ! k]) JackPortIsInput,
      Port_register c (name @ ''_playback_'' @ [channel ! k]) JackPortIsOutput]"

text \<open>
  The block \<^verbatim>\<open>jack_init\<close> hands to \<^verbatim>\<open>register_ports\<close>, and an environment in
  which every call succeeds: they serve as concrete inputs.
\<close>

definition jack0 :: jack_t where
  "jack0 = \<lparr>input_port = replicate DEVICE_CHANNELS None,
            output_port = replicate DEVICE_CHANNELS None\<rparr>"

definition E_ok :: env where
  "E_ok = \<lparr>jack_client_open = (\<lambda>tr. (Some 7, 0)),
           jack_set_process_callback = (\<lambda>tr. 0),
           jack_get_sample_rate = (\<lambda>tr. 44100),
           malloc = (\<lambda>tr. True),
           jack_port_register = (\<lambda>tr nm. Some (length tr)),
           player_collect = (\<lambda>tr pl n r. replicate (n * DEVICE_CHANNELS) 16384)\<rparr>"

definition dev_a :: device_t where
  "dev_a = \<lparr>local = None, pollfds = None, handle = None, start_hook = None,
            stop_hook = None, clear_hook = None, timecoder = Some 5, player = 9\<rparr>"

text \<open>
  The events by which \<^verbatim>\<open>start_jack_client\<close> opens the client connection and
  installs the process callback.
\<close>

fun opens_client :: "event \<Rightarrow> bool" where
  "opens_client (Client_open _) = True"
| "opens_client (Set_process_callback _) = True"
| "opens_client _ = False"

text \<open>
  A trace that continues another one without opening a client or installing a callback.
\<close>

definition quiet_extension :: "event list \<Rightarrow> event list \<Rightarrow> bool" where
  "quiet_extension t t' = (\<exists>tr. t' = t @ tr \<and> filter opens_client tr = [])"

text \<open>The kinds of events the statements count.\<close>

fun is_process_deck :: "event \<Rightarrow> bool" where
  "is_process_deck (Process_deck _ _) = True"
| "is_process_deck _ = False"

fun is_timecoder_submit :: "event \<Rightarrow> bool" where
  "is_timecoder_submit (Timecoder_submit _ _ _ _) = True"
| "is_timecoder_submit _ = False"

fun is_player_collect :: "event \<Rightarrow> bool" where
  "is_player_collect (Player_collect _ _ _) = True"
| "is_player_collect _ = False"

text \<open>
  A deck is ready for a cycle of \<open>nframes\<close> frames when its device record is there with
  its \<^verbatim>\<open>struct jack_t\<close>, every one of its two input and two output ports has a buffer
  of at least \<open>nframes\<close> samples, and the two output ports differ.
\<close>

definition buffer_ready :: "memory \<Rightarrow> nat \<Rightarrow> port option \<Rightarrow> bool" where
  "buffer_ready m n p =
     (case p of
        None \<Rightarrow> False
      | Some q \<Rightarrow> (case m q of None \<Rightarrow> False | Some xs \<Rightarrow> n \<le> length xs))"

definition deck_ready :: "jack_state \<Rightarrow> nat \<Rightarrow> dev_ptr option \<Rightarrow> bool" where
  "deck_ready st nframes dv =
     (case dv of
        None \<Rightarrow> False
      | Some a \<Rightarrow>
      (case devices st a of
        None \<Rightarrow> False
      | Some d \<Rightarrow>
      (case local d of
        None \<Rightarrow> False
      | Some jack \<Rightarrow>
          length (input_port jack) = DEVICE_CHANNELS
        \<and> length (output_port jack) = DEVICE_CHANNELS
        \<and> list_all (buffer_ready (port_buffers st) nframes) (input_port jack @ output_port jack)
        \<and> distinct (output_port jack))))"

text \<open>
  Two registered decks with one frame in every port buffer; the first has a timecoder
  attached, the second has none.
\<close>

definition deck_a :: device_t where
  "deck_a = dev_a\<lparr>local := Some \<lparr>input_port = [Some 1, Some 2], output_port = [Some 3, Some 4]\<rparr>\<rparr>"

definition deck_b :: device_t where
  "deck_b = dev_a\<lparr>local := Some \<lparr>input_port = [Some 5, Some 6], output_port = [Some 7, Some 8]\<rparr>,
                  timecoder := None\<rparr>"

definition two_decks :: jack_state where
  "two_decks =
     \<lparr>client = Some 7, rate = 44100, decks = 2, device = [Some 10, Some 11, None, None],
      devices = [10 \<mapsto> deck_a, 11 \<mapsto> deck_b],
      port_buffers = [1 \<mapsto> [1 / 2], 2 \<mapsto> [- 1 / 4], 3 \<mapsto> [0], 4 \<mapsto> [0],
                      5 \<mapsto> [1 / 8], 6 \<mapsto> [0], 7 \<mapsto> [0], 8 \<mapsto> [0]],
      trace = []\<rparr>"

text \<open>
  One registered deck in a cycle of 2048 frames: every port buffer holds 2048 samples.
\<close>

definition wide_deck :: jack_state where
  "wide_deck =
     \<lparr>client = Some 7, rate = 44100, decks = 1, device = [Some 10, None, None, None],
      devices = [10 \<mapsto> deck_a],
      port_buffers = [1 \<mapsto> replicate 2048 0, 2 \<mapsto> replicate 2048 0,
                      3 \<mapsto> replicate 2048 0, 4 \<mapsto> replicate 2048 0],
      trace = []\<rparr>"

section \<open>Properties of the sample format conversion\<close>

subsection \<open>One sample\<close>

lemma trunc_zero_error: "\<bar>real_of_int (trunc_zero x) - x\<bar> < 1"
  unfolding trunc_zero_def by (simp; linarith)

lemma trunc_zero_mono: "x \<le> y \<Longrightarrow> trunc_zero x \<le> trunc_zero y"
proof -
  have "\<lceil>x\<rceil> \<le> \<lfloor>y\<rfloor>" if "x < 0" "0 \<le> y"
  proof -
    have "\<lceil>x\<rceil> \<le> 0" using that(1) by (simp add: ceiling_le_iff)
    moreover have "0 \<le> \<lfloor>y\<rfloor>" using that(2) by simp
    ultimately show ?thesis by linarith
  qed
  then show "x \<le> y \<Longrightarrow> trunc_zero x \<le> trunc_zero y"
    unfolding trunc_zero_def
    by (auto intro: floor_mono ceiling_mono simp: not_le)
qed

lemma trunc_zero_of_int: "trunc_zero (real_of_int k) = k"
  by (simp add: trunc_zero_def)

lemma sint_to_short:
  assumes "- 32768 \<le> x" "x \<le> 32767"
  shows "sint (to_short x) = trunc_zero x"
proof -
  have "trunc_zero (real_of_int (- 32768)) \<le> trunc_zero x" using assms(1) by (intro trunc_zero_mono) simp
  moreover have "trunc_zero x \<le> trunc_zero (real_of_int 32767)" using assms(2) by (intro trunc_zero_mono) simp
  ultimately have "- 32768 \<le> trunc_zero x" "trunc_zero x \<le> 32767"
    by (simp_all only: trunc_zero_of_int)
  then show ?thesis
    unfolding to_short_def by (simp add: sint_sbintrunc' signed_take_bit_int_eq_self)
qed

lemma trunc_zero_32_bits:
  assumes "- 2147483648 \<le> x" "x < 2147483648"
  shows "- 2147483648 \<le> trunc_zero x \<and> trunc_zero x \<le> 2147483647"
proof -
  have "trunc_zero (real_of_int (- 2147483648)) \<le> trunc_zero x"
    using assms(1) by (intro trunc_zero_mono) simp
  then have lo: "- 2147483648 \<le> trunc_zero x"
    by (simp only: trunc_zero_of_int)
  have "trunc_zero x < 2147483648"
  proof (cases "0 \<le> x")
    case True
    then show ?thesis
      using assms(2) by (simp add: trunc_zero_def floor_less_iff)
  next
    case False
    then have "\<lceil>x\<rceil> \<le> 0"
      by (simp add: ceiling_le_iff)
    then show ?thesis
      using False by (simp add: trunc_zero_def)
  qed
  with lo show ?thesis
    by simp
qed

lemma to_short_32_bits:
  assumes "- 2147483648 \<le> x" "x < 2147483648"
  shows "to_short x = word_of_int (trunc_zero x)"
  using trunc_zero_32_bits [OF assms] by (simp add: to_short_def)

text \<open>
  Past 32 bits the low 16 bits of the truncated product are no longer what is stored:
  the sample \<open>65536.5\<close> scales to \<open>2147500032\<close>, whose low 16 bits are 16384, and the
  conversion stores 0.
\<close>

lemma to_short_past_32_bits: "to_short (131073 / 2 * real_of_int SCALE) = 0"
  by (simp add: to_short_def trunc_zero_def SCALE_def)

lemma sample_round_trip:
  assumes "- 32768 \<le> v * real_of_int SCALE" "v * real_of_int SCALE \<le> 32767"
  shows "\<bar>from_short (to_short (v * real_of_int SCALE)) - v\<bar> \<le> 1 / 32768"
proof -
  let ?x = "v * real_of_int SCALE"
  have "\<bar>real_of_int (trunc_zero ?x) - ?x\<bar> < 1" by (rule trunc_zero_error)
  moreover have "from_short (to_short ?x) = real_of_int (trunc_zero ?x) / 32768"
    using assms by (simp add: from_short_def sint_to_short) (simp add: SCALE_def)
  ultimately show ?thesis by (simp add: SCALE_def abs_if field_simps split: if_splits)
qed

subsection \<open>Whole buffers\<close>

lemma interleave_channels_two:
  assumes "m p0 = Some xs0" "m p1 = Some xs1" "o0 < length xs0" "o1 < length xs1"
    "Suc i < length buf"
  shows "interleave_channels m 0 buf i [(p0, o0), (p1, o1)] =
    Inr (buf[i := to_short (xs0 ! o0 * real_of_int SCALE),
             Suc i := to_short (xs1 ! o1 * real_of_int SCALE)],
         Suc (Suc i), [(p0, Suc o0), (p1, Suc o1)])"
  using assms
  apply (subst interleave_channels.simps)
  apply (simp add: DEVICE_CHANNELS_def load_def incr_def)
  apply (subst interleave_channels.simps)
  apply (simp add: DEVICE_CHANNELS_def load_def incr_def)
  apply (subst interleave_channels.simps)
  apply (simp add: DEVICE_CHANNELS_def load_def incr_def)
  done

lemma interleave_frames:
  assumes "m p0 = Some xs0" "m p1 = Some xs1"
  shows "o0 + N \<le> length xs0 \<Longrightarrow> o1 + N \<le> length xs1 \<Longrightarrow> i + 2 * N \<le> length buf \<Longrightarrow>
    \<exists>buf'. interleave m buf i [(p0, o0), (p1, o1)] N =
              Inr (buf', i + 2 * N, [(p0, o0 + N), (p1, o1 + N)])
      \<and> length buf' = length buf
      \<and> (\<forall>f<N. buf' ! (i + 2 * f) = to_short (xs0 ! (o0 + f) * real_of_int SCALE)
             \<and> buf' ! (i + 2 * f + 1) = to_short (xs1 ! (o1 + f) * real_of_int SCALE))
      \<and> (\<forall>j<length buf. j < i \<or> i + 2 * N \<le> j \<longrightarrow> buf' ! j = buf ! j)"
proof (induction N arbitrary: buf i o0 o1)
  case 0
  then show ?case by simp
next
  case (Suc N)
  let ?buf1 = "buf[i := to_short (xs0 ! o0 * real_of_int SCALE),
                   Suc i := to_short (xs1 ! o1 * real_of_int SCALE)]"
  have step: "interleave_channels m 0 buf i [(p0, o0), (p1, o1)] =
      Inr (?buf1, Suc (Suc i), [(p0, Suc o0), (p1, Suc o1)])"
    using Suc.prems assms by (intro interleave_channels_two) auto
  from Suc.IH [of "Suc o0" "Suc o1" "Suc (Suc i)" ?buf1] Suc.prems
  obtain buf' where
    run: "interleave m ?buf1 (Suc (Suc i)) [(p0, Suc o0), (p1, Suc o1)] N =
            Inr (buf', Suc (Suc i) + 2 * N, [(p0, Suc o0 + N), (p1, Suc o1 + N)])"
    and len: "length buf' = length ?buf1"
    and new: "\<forall>f<N. buf' ! (Suc (Suc i) + 2 * f) = to_short (xs0 ! (Suc o0 + f) * real_of_int SCALE)
             \<and> buf' ! (Suc (Suc i) + 2 * f + 1) = to_short (xs1 ! (Suc o1 + f) * real_of_int SCALE)"
    and old: "\<forall>j<length ?buf1. j < Suc (Suc i) \<or> Suc (Suc i) + 2 * N \<le> j \<longrightarrow> buf' ! j = ?buf1 ! j"
    by auto
  have a: "buf' ! i = to_short (xs0 ! o0 * real_of_int SCALE)"
    and b: "buf' ! Suc i = to_short (xs1 ! o1 * real_of_int SCALE)"
    using old Suc.prems by auto
  have "\<forall>f<Suc N. buf' ! (i + 2 * f) = to_short (xs0 ! (o0 + f) * real_of_int SCALE)
             \<and> buf' ! (i + 2 * f + 1) = to_short (xs1 ! (o1 + f) * real_of_int SCALE)"
  proof (intro allI impI)
    fix f assume "f < Suc N"
    show "buf' ! (i + 2 * f) = to_short (xs0 ! (o0 + f) * real_of_int SCALE)
             \<and> buf' ! (i + 2 * f + 1) = to_short (xs1 ! (o1 + f) * real_of_int SCALE)"
    proof (cases f)
      case 0
      then show ?thesis using a b by simp
    next
      case (Suc g)
      with \<open>f < Suc N\<close> new show ?thesis by simp
    qed
  qed
  moreover have "\<forall>j<length buf. j < i \<or> i + 2 * Suc N \<le> j \<longrightarrow> buf' ! j = buf ! j"
    using old by auto
  ultimately show ?case
    using step run len by simp
qed


lemma uninterleave_channels_two:
  assumes "m p0 = Some ys0" "m p1 = Some ys1" "p0 \<noteq> p1" "o0 < length ys0" "o1 < length ys1"
    "Suc i < length buf"
  shows "uninterleave_channels m 0 [(p0, o0), (p1, o1)] buf i =
    Inr (m(p0 \<mapsto> ys0[o0 := from_short (buf ! i)], p1 \<mapsto> ys1[o1 := from_short (buf ! Suc i)]),
         Suc (Suc i), [(p0, Suc o0), (p1, Suc o1)])"
  using assms
  apply (subst uninterleave_channels.simps)
  apply (simp add: DEVICE_CHANNELS_def store_def incr_def)
  apply (subst uninterleave_channels.simps)
  apply (simp add: DEVICE_CHANNELS_def store_def incr_def)
  apply (subst uninterleave_channels.simps)
  apply (simp add: DEVICE_CHANNELS_def store_def incr_def)
  done

lemma uninterleave_frames:
  assumes "p0 \<noteq> p1"
  shows "m p0 = Some ys0 \<Longrightarrow> m p1 = Some ys1 \<Longrightarrow>
    o0 + N \<le> length ys0 \<Longrightarrow> o1 + N \<le> length ys1 \<Longrightarrow> i + 2 * N \<le> length buf \<Longrightarrow>
    \<exists>zs0 zs1. uninterleave m [(p0, o0), (p1, o1)] buf i N =
              Inr (m(p0 \<mapsto> zs0, p1 \<mapsto> zs1), i + 2 * N, [(p0, o0 + N), (p1, o1 + N)])
      \<and> length zs0 = length ys0 \<and> length zs1 = length ys1
      \<and> (\<forall>f<N. zs0 ! (o0 + f) = from_short (buf ! (i + 2 * f))
             \<and> zs1 ! (o1 + f) = from_short (buf ! (i + 2 * f + 1)))
      \<and> (\<forall>j<length ys0. j < o0 \<or> o0 + N \<le> j \<longrightarrow> zs0 ! j = ys0 ! j)
      \<and> (\<forall>j<length ys1. j < o1 \<or> o1 + N \<le> j \<longrightarrow> zs1 ! j = ys1 ! j)"
proof (induction N arbitrary: m ys0 ys1 i o0 o1)
  case 0
  have "m(p0 \<mapsto> ys0, p1 \<mapsto> ys1) = m"
    using 0 by (auto simp: fun_eq_iff)
  then show ?case
    using 0 by - (rule exI [of _ ys0], rule exI [of _ ys1], auto simp: fun_eq_iff)
next
  case (Suc N)
  let ?ys0 = "ys0[o0 := from_short (buf ! i)]"
  let ?ys1 = "ys1[o1 := from_short (buf ! Suc i)]"
  let ?m1 = "m(p0 \<mapsto> ?ys0, p1 \<mapsto> ?ys1)"
  have step: "uninterleave_channels m 0 [(p0, o0), (p1, o1)] buf i =
      Inr (?m1, Suc (Suc i), [(p0, Suc o0), (p1, Suc o1)])"
    using Suc.prems assms by (intro uninterleave_channels_two) auto
  have m1: "?m1 p0 = Some ?ys0" "?m1 p1 = Some ?ys1"
    using assms by auto
  have pre: "Suc o0 + N \<le> length ?ys0" "Suc o1 + N \<le> length ?ys1"
    "Suc (Suc i) + 2 * N \<le> length buf"
    using Suc.prems by simp_all
  from Suc.IH [OF m1 pre]
  obtain zs0 zs1 where
    run: "uninterleave ?m1 [(p0, Suc o0), (p1, Suc o1)] buf (Suc (Suc i)) N =
            Inr (?m1(p0 \<mapsto> zs0, p1 \<mapsto> zs1), Suc (Suc i) + 2 * N,
                 [(p0, Suc o0 + N), (p1, Suc o1 + N)])"
    and len: "length zs0 = length ?ys0" "length zs1 = length ?ys1"
    and new: "\<forall>f<N. zs0 ! (Suc o0 + f) = from_short (buf ! (Suc (Suc i) + 2 * f))
             \<and> zs1 ! (Suc o1 + f) = from_short (buf ! (Suc (Suc i) + 2 * f + 1))"
    and old0: "\<forall>j<length ?ys0. j < Suc o0 \<or> Suc o0 + N \<le> j \<longrightarrow> zs0 ! j = ?ys0 ! j"
    and old1: "\<forall>j<length ?ys1. j < Suc o1 \<or> Suc o1 + N \<le> j \<longrightarrow> zs1 ! j = ?ys1 ! j"
    by blast
  have a: "zs0 ! o0 = from_short (buf ! i)" and b: "zs1 ! o1 = from_short (buf ! Suc i)"
    using old0 old1 Suc.prems by auto
  have upd: "?m1(p0 \<mapsto> zs0, p1 \<mapsto> zs1) = m(p0 \<mapsto> zs0, p1 \<mapsto> zs1)"
    by (auto simp: fun_eq_iff)
  have run': "uninterleave ?m1 [(p0, Suc o0), (p1, Suc o1)] buf (Suc (Suc i)) N =
            Inr (m(p0 \<mapsto> zs0, p1 \<mapsto> zs1), Suc (Suc i) + 2 * N,
                 [(p0, Suc o0 + N), (p1, Suc o1 + N)])"
    using run unfolding upd .
  have res: "uninterleave m [(p0, o0), (p1, o1)] buf i (Suc N) =
      Inr (m(p0 \<mapsto> zs0, p1 \<mapsto> zs1), i + 2 * Suc N, [(p0, o0 + Suc N), (p1, o1 + Suc N)])"
    by (simp add: step run')
  have l0: "length zs0 = length ys0" and l1: "length zs1 = length ys1"
    using len by simp_all
  have new': "\<forall>f<Suc N. zs0 ! (o0 + f) = from_short (buf ! (i + 2 * f))
             \<and> zs1 ! (o1 + f) = from_short (buf ! (i + 2 * f + 1))"
  proof (intro allI impI)
    fix f assume "f < Suc N"
    show "zs0 ! (o0 + f) = from_short (buf ! (i + 2 * f))
             \<and> zs1 ! (o1 + f) = from_short (buf ! (i + 2 * f + 1))"
    proof (cases f)
      case 0
      then show ?thesis using a b by simp
    next
      case (Suc g)
      with \<open>f < Suc N\<close> new show ?thesis by simp
    qed
  qed
  have old0': "\<forall>j<length ys0. j < o0 \<or> o0 + Suc N \<le> j \<longrightarrow> zs0 ! j = ys0 ! j"
    using old0 by auto
  have old1': "\<forall>j<length ys1. j < o1 \<or> o1 + Suc N \<le> j \<longrightarrow> zs1 ! j = ys1 ! j"
    using old1 by auto
  from res l0 l1 new' old0' old1' show ?case
    by blast
qed

text \<open>
  The frames do not fit the array: \<^verbatim>\<open>interleave\<close> writes past its end.
\<close>

lemma interleave_channels_overrun:
  assumes "m p0 = Some xs0" "m p1 = Some xs1" "o0 < length xs0" "o1 < length xs1"
    "\<not> Suc i < length buf"
  shows "interleave_channels m 0 buf i [(p0, o0), (p1, o1)] = Inl OutOfBounds"
proof (cases "i < length buf")
  case False
  then show ?thesis
    using assms
    by (subst interleave_channels.simps) (simp add: DEVICE_CHANNELS_def load_def)
next
  case True
  then show ?thesis
    using assms
    apply (subst interleave_channels.simps)
    apply (simp add: DEVICE_CHANNELS_def load_def incr_def)
    apply (subst interleave_channels.simps)
    apply (simp add: DEVICE_CHANNELS_def load_def incr_def)
    done
qed

lemma interleave_overrun:
  assumes "m p0 = Some xs0" "m p1 = Some xs1"
  shows "o0 + N \<le> length xs0 \<Longrightarrow> o1 + N \<le> length xs1 \<Longrightarrow> i \<le> length buf \<Longrightarrow>
    length buf < i + 2 * N \<Longrightarrow>
    interleave m buf i [(p0, o0), (p1, o1)] N = Inl OutOfBounds"
proof (induction N arbitrary: buf i o0 o1)
  case 0
  then show ?case by simp
next
  case (Suc N)
  show ?case
  proof (cases "Suc i < length buf")
    case False
    have "interleave_channels m 0 buf i [(p0, o0), (p1, o1)] = Inl OutOfBounds"
      using Suc.prems False assms by (intro interleave_channels_overrun) auto
    then show ?thesis by simp
  next
    case True
    let ?buf1 = "buf[i := to_short (xs0 ! o0 * real_of_int SCALE),
                     Suc i := to_short (xs1 ! o1 * real_of_int SCALE)]"
    have step: "interleave_channels m 0 buf i [(p0, o0), (p1, o1)] =
        Inr (?buf1, Suc (Suc i), [(p0, Suc o0), (p1, Suc o1)])"
      using Suc.prems True assms by (intro interleave_channels_two) auto
    have "interleave m ?buf1 (Suc (Suc i)) [(p0, Suc o0), (p1, Suc o1)] N = Inl OutOfBounds"
      using Suc.prems True by (intro Suc.IH) simp_all
    with step show ?thesis by simp
  qed
qed

lemma interleave_one_frame:
  assumes "m p0 = Some [a]" "m p1 = Some [b]"
  shows "interleave m [0, 0] 0 [(p0, 0), (p1, 0)] (Suc 0) =
    Inr ([to_short (a * real_of_int SCALE), to_short (b * real_of_int SCALE)], 2, [(p0, 1), (p1, 1)])"
  using interleave_channels_two [OF assms, of 0 0 0 "[0, 0]"] by simp

subsection \<open>The claims on the conversion\<close>

text \<open>
  Claim C1 (round trip). Take \<open>N\<close> frames of two input channels whose samples, scaled by
  32768, lie in the range of a signed 16-bit integer. Interleaving them into a buffer of at
  least \<open>2 * N\<close> entries and uninterleaving that buffer into two distinct output channels
  succeeds, and at every frame of both channels the output sample differs from the input
  sample by at most one quantisation step, \<open>1 / 32768\<close>.
\<close>

theorem interleave_uninterleave_round_trip:
  assumes "m pi0 = Some xs0" and "m pi1 = Some xs1"
    and "N \<le> length xs0" and "N \<le> length xs1"
    and "m po0 = Some ys0" and "m po1 = Some ys1" and "po0 \<noteq> po1"
    and "N \<le> length ys0" and "N \<le> length ys1"
    and "DEVICE_CHANNELS * N \<le> length buf"
    and "\<forall>f<N. - 32768 \<le> xs0 ! f * real_of_int SCALE \<and> xs0 ! f * real_of_int SCALE \<le> 32767
             \<and> - 32768 \<le> xs1 ! f * real_of_int SCALE \<and> xs1 ! f * real_of_int SCALE \<le> 32767"
  shows "\<exists>buf' i' jbuf' m' i'' jbuf'' zs0 zs1.
      interleave m buf 0 [(pi0, 0), (pi1, 0)] N = Inr (buf', i', jbuf')
    \<and> uninterleave m [(po0, 0), (po1, 0)] buf' 0 N = Inr (m', i'', jbuf'')
    \<and> m' po0 = Some zs0 \<and> m' po1 = Some zs1
    \<and> (\<forall>f<N. \<bar>zs0 ! f - xs0 ! f\<bar> \<le> 1 / 32768 \<and> \<bar>zs1 ! f - xs1 ! f\<bar> \<le> 1 / 32768)"
proof -
  have len: "0 + 2 * N \<le> length buf"
    using assms(10) by (simp add: DEVICE_CHANNELS_def)
  from interleave_frames [OF assms(1,2), of 0 N 0 0 buf] assms(3,4) len
  obtain buf' where
    il: "interleave m buf 0 [(pi0, 0), (pi1, 0)] N = Inr (buf', 0 + 2 * N, [(pi0, 0 + N), (pi1, 0 + N)])"
    and len': "length buf' = length buf"
    and vals: "\<forall>f<N. buf' ! (0 + 2 * f) = to_short (xs0 ! (0 + f) * real_of_int SCALE)
             \<and> buf' ! (0 + 2 * f + 1) = to_short (xs1 ! (0 + f) * real_of_int SCALE)"
    by auto
  have pre: "0 + N \<le> length ys0" "0 + N \<le> length ys1" "0 + 2 * N \<le> length buf'"
    using assms(8,9) len len' by simp_all
  from uninterleave_frames [OF assms(7) assms(5,6) pre]
  obtain zs0 zs1 where
    ul: "uninterleave m [(po0, 0), (po1, 0)] buf' 0 N =
           Inr (m(po0 \<mapsto> zs0, po1 \<mapsto> zs1), 0 + 2 * N, [(po0, 0 + N), (po1, 0 + N)])"
    and out: "\<forall>f<N. zs0 ! (0 + f) = from_short (buf' ! (0 + 2 * f))
             \<and> zs1 ! (0 + f) = from_short (buf' ! (0 + 2 * f + 1))"
    by blast
  have close: "\<forall>f<N. \<bar>zs0 ! f - xs0 ! f\<bar> \<le> 1 / 32768 \<and> \<bar>zs1 ! f - xs1 ! f\<bar> \<le> 1 / 32768"
  proof (intro allI impI)
    fix f assume f: "f < N"
    have "zs0 ! f = from_short (to_short (xs0 ! f * real_of_int SCALE))"
      and "zs1 ! f = from_short (to_short (xs1 ! f * real_of_int SCALE))"
      using out vals f by simp_all
    then show "\<bar>zs0 ! f - xs0 ! f\<bar> \<le> 1 / 32768 \<and> \<bar>zs1 ! f - xs1 ! f\<bar> \<le> 1 / 32768"
      using assms(11) f sample_round_trip by simp
  qed
  have "(m(po0 \<mapsto> zs0, po1 \<mapsto> zs1)) po0 = Some zs0" "(m(po0 \<mapsto> zs0, po1 \<mapsto> zs1)) po1 = Some zs1"
    using assms(7) by simp_all
  with il ul close show ?thesis by blast
qed

theorem interleave_uninterleave_round_trip_witness:
  "\<exists>buf' i' jbuf' m' i'' jbuf'' zs0 zs1.
      interleave [0 \<mapsto> [3 / 10, - 1], 1 \<mapsto> [1 / 2, 32767 / 32768], 2 \<mapsto> [0, 0], 3 \<mapsto> [0, 0]]
        [0, 0, 0, 0] 0 [(0, 0), (1, 0)] 2 = Inr (buf', i', jbuf')
    \<and> uninterleave [0 \<mapsto> [3 / 10, - 1], 1 \<mapsto> [1 / 2, 32767 / 32768], 2 \<mapsto> [0, 0], 3 \<mapsto> [0, 0]]
        [(2, 0), (3, 0)] buf' 0 2 = Inr (m', i'', jbuf'')
    \<and> m' 2 = Some zs0 \<and> m' 3 = Some zs1
    \<and> (\<forall>f<2. \<bar>zs0 ! f - [3 / 10, - 1] ! f\<bar> \<le> 1 / 32768
            \<and> \<bar>zs1 ! f - [1 / 2, 32767 / 32768] ! f\<bar> \<le> 1 / 32768)"
  by (rule interleave_uninterleave_round_trip [where ?ys0.0 = "[0, 0]" and ?ys1.0 = "[0, 0]"])
    (simp_all add: DEVICE_CHANNELS_def SCALE_def less_Suc_eq numeral_2_eq_2)

text \<open>
  Claim C2, as the code has it. Take \<open>N\<close> frames of two input channels of finite
  samples whose products with 32768 lie in the range of a 32-bit signed integer. Then
  \<^verbatim>\<open>interleave\<close> writes, for each frame and for each channel in channel order, the
  low 16 bits of the sample times 32768 with its fraction dropped (truncation towards
  zero, not rounding to nearest): values outside the nominal range wrap around and are
  not clamped.
\<close>

theorem interleave_stores_truncated_samples:
  assumes "m p0 = Some xs0" and "m p1 = Some xs1"
    and "N \<le> length xs0" and "N \<le> length xs1"
    and "DEVICE_CHANNELS * N \<le> length buf"
    and "\<forall>f<N. - 2147483648 \<le> xs0 ! f * real_of_int SCALE
             \<and> xs0 ! f * real_of_int SCALE < 2147483648
             \<and> - 2147483648 \<le> xs1 ! f * real_of_int SCALE
             \<and> xs1 ! f * real_of_int SCALE < 2147483648"
  shows "\<exists>buf' jbuf'.
      interleave m buf 0 [(p0, 0), (p1, 0)] N = Inr (buf', DEVICE_CHANNELS * N, jbuf')
    \<and> length buf' = length buf
    \<and> (\<forall>f<N. \<forall>c<DEVICE_CHANNELS. buf' ! (f * DEVICE_CHANNELS + c) =
          word_of_int (trunc_zero ([xs0, xs1] ! c ! f * real_of_int SCALE)))"
proof -
  have len: "0 + 2 * N \<le> length buf"
    using assms(5) by (simp add: DEVICE_CHANNELS_def)
  from interleave_frames [OF assms(1,2), of 0 N 0 0 buf] assms(3,4) len
  obtain buf' where
    il: "interleave m buf 0 [(p0, 0), (p1, 0)] N = Inr (buf', 0 + 2 * N, [(p0, 0 + N), (p1, 0 + N)])"
    and len': "length buf' = length buf"
    and vals: "\<forall>f<N. buf' ! (0 + 2 * f) = to_short (xs0 ! (0 + f) * real_of_int SCALE)
             \<and> buf' ! (0 + 2 * f + 1) = to_short (xs1 ! (0 + f) * real_of_int SCALE)"
    by auto
  have w: "to_short (xs0 ! f * real_of_int SCALE) = word_of_int (trunc_zero (xs0 ! f * real_of_int SCALE))"
    "to_short (xs1 ! f * real_of_int SCALE) = word_of_int (trunc_zero (xs1 ! f * real_of_int SCALE))"
    if "f < N" for f
    using assms(6) that by (simp_all add: to_short_32_bits)
  have "\<forall>f<N. \<forall>c<DEVICE_CHANNELS. buf' ! (f * DEVICE_CHANNELS + c) =
          word_of_int (trunc_zero ([xs0, xs1] ! c ! f * real_of_int SCALE))"
  proof (intro allI impI)
    fix f c assume f: "f < N" and c: "c < DEVICE_CHANNELS"
    from c have "c = 0 \<or> c = 1"
      by (auto simp: DEVICE_CHANNELS_def)
    then show "buf' ! (f * DEVICE_CHANNELS + c) =
          word_of_int (trunc_zero ([xs0, xs1] ! c ! f * real_of_int SCALE))"
      using vals f w [OF f] by (auto simp: DEVICE_CHANNELS_def mult.commute)
  qed
  with il len' show ?thesis by (simp add: DEVICE_CHANNELS_def)
qed

theorem interleave_stores_truncated_samples_witness:
  "\<exists>buf' jbuf'.
      interleave [0 \<mapsto> [3 / 131072, 2], 1 \<mapsto> [- 3 / 131072, - 1 / 2]] [0, 0, 0, 0] 0 [(0, 0), (1, 0)] 2
        = Inr (buf', DEVICE_CHANNELS * 2, jbuf')
    \<and> length buf' = length [0 :: s16, 0, 0, 0]
    \<and> (\<forall>f<2. \<forall>c<DEVICE_CHANNELS. buf' ! (f * DEVICE_CHANNELS + c) =
          word_of_int (trunc_zero ([[3 / 131072, 2], [- 3 / 131072, - 1 / 2]] ! c ! f * real_of_int SCALE)))"
  by (rule interleave_stores_truncated_samples)
    (simp_all add: DEVICE_CHANNELS_def SCALE_def less_Suc_eq numeral_2_eq_2)

text \<open>
  Claim C2 as stated asks for \<open>round (sample * 32768)\<close>. The sample \<open>3 / 131072\<close>
  scales to \<open>3 / 4\<close>: the code stores 0, rounding to nearest gives 1.
\<close>

theorem interleave_rounding_counterexample:
  "interleave [0 \<mapsto> [3 / 131072], 1 \<mapsto> [0]] [0, 0] 0 [(0, 0), (1, 0)] 1 =
     Inr ([0, 0], 2, [(0, 1), (1, 1)])
   \<and> [0, 0 :: s16] ! 0 \<noteq> word_of_int (round (3 / 131072 * real_of_int SCALE))"
  using interleave_one_frame [of "[0 \<mapsto> [3 / 131072], 1 \<mapsto> [0]]" 0 "3 / 131072" 1 0]
  by (simp add: to_short_def trunc_zero_def SCALE_def round_def)

text \<open>
  Claim C8 (full scale). For the input sample 1.0 on both channels \<^verbatim>\<open>interleave\<close>
  stores the 16-bit pattern of 32768, that is \<open>32768 mod 2 ^ 16\<close>; read as a signed
  16-bit integer that pattern is \<open>- 32768\<close>. It is not the clamped value 32767.
\<close>

theorem interleave_full_scale_wraps:
  "interleave [0 \<mapsto> [1], 1 \<mapsto> [1]] [0, 0] 0 [(0, 0), (1, 0)] 1 =
     Inr ([32768, 32768], 2, [(0, 1), (1, 1)])
   \<and> to_short (1 * real_of_int SCALE) = word_of_int 32768
   \<and> uint (to_short (1 * real_of_int SCALE)) = 32768 mod 2 ^ 16
   \<and> sint (to_short (1 * real_of_int SCALE)) = - 32768
   \<and> to_short (1 * real_of_int SCALE) \<noteq> 32767"
  using interleave_one_frame [of "[0 \<mapsto> [1], 1 \<mapsto> [1]]" 0 1 1 1]
  by (simp add: to_short_def trunc_zero_def SCALE_def)

section \<open>Properties of the port registration\<close>

subsection \<open>Formatting a port name\<close>

lemma write_bytes_Inr:
  "i + length cs \<le> length buf \<Longrightarrow>
   write_bytes buf i cs = Inr (take i buf @ cs @ drop (i + length cs) buf)"
proof (induction cs arbitrary: buf i)
  case Nil
  then show ?case by simp
next
  case (Cons c cs)
  have "take i buf @ c # cs @ drop (Suc (i + length cs)) buf =
        take (Suc i) (buf[i := c]) @ cs @ drop (Suc i + length cs) (buf[i := c])"
    using Cons.prems by (simp add: take_Suc_conv_app_nth upd_conv_take_nth_drop add.commute)
  then show ?case
    using Cons.prems Cons.IH [of "Suc i" "buf[i := c]"] by simp
qed

lemma write_bytes_Inl:
  "i \<le> length buf \<Longrightarrow> length buf < i + length cs \<Longrightarrow> write_bytes buf i cs = Inl OutOfBounds"
  by (induction cs arbitrary: buf i) auto

lemma sprintf_Inr:
  "length s < length buf \<Longrightarrow> sprintf buf s = Inr (s @ NUL # drop (Suc (length s)) buf)"
  using write_bytes_Inr [of 0 "s @ [NUL]" buf] by (simp add: sprintf_def)

lemma sprintf_Inl:
  "length buf \<le> length s \<Longrightarrow> sprintf buf s = Inl OutOfBounds"
  using write_bytes_Inl [of 0 buf "s @ [NUL]"] by (simp add: sprintf_def)

lemma sprintf_cases:
  "sprintf buf s = Inr buf' \<Longrightarrow>
     length s < length buf \<and> buf' = s @ NUL # drop (Suc (length s)) buf"
  by (cases "length s < length buf") (simp_all add: sprintf_Inr sprintf_Inl)

lemma c_str_terminated: "NUL \<notin> set s \<Longrightarrow> c_str (s @ NUL # rest) = s"
  by (induction s) (auto simp: c_str_def)

lemma NUL_not_in_format [simp]:
  "NUL \<notin> set ''_timecode_''" "NUL \<notin> set ''_playback_''" "NUL \<notin> set channel"
  by (simp_all add: NUL_def channel_def)


lemma write_bytes_length: "write_bytes buf i cs = Inr buf' \<Longrightarrow> length buf' = length buf"
  by (induction cs arbitrary: buf i) (auto split: if_splits)

lemma sprintf_length: "sprintf buf s = Inr buf' \<Longrightarrow> length buf' = length buf"
  by (auto simp: sprintf_def dest: write_bytes_length)

lemma sprintf_port_name:
  assumes "length name \<le> 20" "length pn = PORT_NAME_LEN"
  shows "sprintf pn (name @ ''_timecode_'' @ [c]) =
           Inr ((name @ ''_timecode_'' @ [c]) @ NUL # drop (length name + 12) pn)"
    and "sprintf pn (name @ ''_playback_'' @ [c]) =
           Inr ((name @ ''_playback_'' @ [c]) @ NUL # drop (length name + 12) pn)"
proof -
  have n: "Suc (Suc (Suc (Suc (Suc (Suc (Suc (Suc (Suc (Suc (Suc (Suc (length name))))))))))))
      = length name + 12"
    by simp
  show "sprintf pn (name @ ''_timecode_'' @ [c]) =
           Inr ((name @ ''_timecode_'' @ [c]) @ NUL # drop (length name + 12) pn)"
    and "sprintf pn (name @ ''_playback_'' @ [c]) =
           Inr ((name @ ''_playback_'' @ [c]) @ NUL # drop (length name + 12) pn)"
    using assms by (simp_all add: sprintf_Inr PORT_NAME_LEN_def n)
qed

lemma register_ports_loop_no_abort:
  "length name \<le> 20 \<Longrightarrow> length pn = PORT_NAME_LEN \<Longrightarrow>
   length (input_port jack) = DEVICE_CHANNELS \<Longrightarrow> length (output_port jack) = DEVICE_CHANNELS \<Longrightarrow>
   aborted (register_ports_loop E n pn jack name st) = None"
proof (induction E n pn jack name st rule: register_ports_loop.induct)
  case (1 E n pn jack name st)
  show ?case
  proof (cases "n < DEVICE_CHANNELS")
    case False
    then show ?thesis
      by (subst register_ports_loop.simps) (simp add: aborted_def)
  next
    case True
    let ?nm1 = "name @ ''_timecode_'' @ [channel ! n]"
    let ?nm2 = "name @ ''_playback_'' @ [channel ! n]"
    let ?pn1 = "?nm1 @ NUL # drop (length name + 12) pn"
    let ?pn2 = "?nm2 @ NUL # drop (length name + 12) ?pn1"
    have s1: "sprintf pn ?nm1 = Inr ?pn1"
      using "1.prems" by (rule_tac sprintf_port_name)
    have l1: "length ?pn1 = PORT_NAME_LEN"
      using s1 "1.prems" by (simp only: sprintf_length)
    have s2: "sprintf ?pn1 ?nm2 = Inr ?pn2"
      using "1.prems"(1) l1 by (rule sprintf_port_name)
    have l2: "length ?pn2 = PORT_NAME_LEN"
      using s2 l1 by (simp only: sprintf_length)
    have ch: "n < length channel"
      using True by (simp add: DEVICE_CHANNELS_def channel_def)
    show ?thesis
      apply (subst register_ports_loop.simps)
      using True ch "1.prems" s1 s2 l2 "1.IH" [OF True _ s1 refl refl refl _ s2 refl refl refl]
      apply (auto simp: Let_def aborted_def simp del: append_assoc append.simps split: sum.splits)
      done
  qed
qed


lemma end_state_simps [simp]:
  "end_state (Inl (e, s)) = s" "end_state (Inr (v, s)) = s"
  by (simp_all add: end_state_def)

lemma ret_val_simps [simp]:
  "ret_val (Inl x) = None" "ret_val (Inr (v, s)) = Some v"
  by (simp_all add: ret_val_def)

lemma aborted_simps [simp]:
  "aborted (Inl (e, s)) = Some e" "aborted (Inr y) = None"
  by (simp_all add: aborted_def)

lemma register_ports_loop_frame:
  "client (end_state (register_ports_loop E n pn jack name st)) = client st
   \<and> rate (end_state (register_ports_loop E n pn jack name st)) = rate st
   \<and> decks (end_state (register_ports_loop E n pn jack name st)) = decks st
   \<and> device (end_state (register_ports_loop E n pn jack name st)) = device st
   \<and> devices (end_state (register_ports_loop E n pn jack name st)) = devices st
   \<and> port_buffers (end_state (register_ports_loop E n pn jack name st)) = port_buffers st"
proof (induction E n pn jack name st rule: register_ports_loop.induct)
  case (1 E n pn jack name st)
  show ?case
    apply (subst (1 2 3 4 5 6) register_ports_loop.simps)
    using "1.IH"
    apply (simp add: Let_def split: sum.splits)
    done
qed

lemma register_ports_loop_ok:
  "\<forall>tr nm. jack_port_register E tr nm \<noteq> None \<Longrightarrow>
   length name \<le> 20 \<Longrightarrow> length pn = PORT_NAME_LEN \<Longrightarrow>
   length (input_port jack) = DEVICE_CHANNELS \<Longrightarrow> length (output_port jack) = DEVICE_CHANNELS \<Longrightarrow>
   \<exists>jack' st'. register_ports_loop E n pn jack name st = Inr ((0, jack'), st')"
proof (induction E n pn jack name st rule: register_ports_loop.induct)
  case (1 E n pn jack name st)
  show ?case
  proof (cases "n < DEVICE_CHANNELS")
    case False
    then show ?thesis
      by (subst register_ports_loop.simps) simp
  next
    case True
    let ?nm1 = "name @ ''_timecode_'' @ [channel ! n]"
    let ?nm2 = "name @ ''_playback_'' @ [channel ! n]"
    let ?pn1 = "?nm1 @ NUL # drop (length name + 12) pn"
    let ?pn2 = "?nm2 @ NUL # drop (length name + 12) ?pn1"
    have s1: "sprintf pn ?nm1 = Inr ?pn1"
      using "1.prems" by (rule_tac sprintf_port_name)
    have l1: "length ?pn1 = PORT_NAME_LEN"
      using s1 "1.prems" by (simp only: sprintf_length)
    have s2: "sprintf ?pn1 ?nm2 = Inr ?pn2"
      using "1.prems"(2) l1 by (rule sprintf_port_name)
    have l2: "length ?pn2 = PORT_NAME_LEN"
      using s2 l1 by (simp only: sprintf_length)
    have ch: "n < length channel"
      using True by (simp add: DEVICE_CHANNELS_def channel_def)
    show ?thesis
      apply (subst register_ports_loop.simps)
      using True ch "1.prems" s1 s2 l2 "1.IH" [OF True _ s1 refl refl refl _ s2 refl refl refl]
      apply (auto simp: Let_def simp del: append_assoc append.simps split: sum.splits)
      done
  qed
qed

lemma register_ports_loop_trace:
  "register_ports_loop E n pn jack name st = Inr ((0, jack'), st') \<Longrightarrow> NUL \<notin> set name \<Longrightarrow>
   trace st' = trace st @ concat (map (port_events (client st) name) [n..<DEVICE_CHANNELS])"
proof (induction E n pn jack name st rule: register_ports_loop.induct)
  case (1 E n pn jack name st)
  show ?case
  proof (cases "n < DEVICE_CHANNELS")
    case False
    then show ?thesis
      using "1.prems" by (subst (asm) register_ports_loop.simps) simp
  next
    case True
    have up: "[n..<DEVICE_CHANNELS] = n # [Suc n..<DEVICE_CHANNELS]"
      using True by (simp add: upt_conv_Cons)
    have ch: "channel ! k \<noteq> NUL" if "k < length channel" for k
      using that by (auto simp: channel_def NUL_def nth_Cons split: nat.splits)
    have cs1: "c_str x = name @ ''_timecode_'' @ [channel ! n]"
      if "sprintf b (name @ ''_timecode_'' @ [channel ! n]) = Inr x" "n < length channel" for b x
    proof -
      have "NUL \<notin> set (name @ ''_timecode_'' @ [channel ! n])"
        using ch [OF that(2)] "1.prems"(2) by (auto simp: NUL_def)
      then show ?thesis
        using sprintf_cases [OF that(1)] c_str_terminated [of "name @ ''_timecode_'' @ [channel ! n]"]
        by simp
    qed
    have cs2: "c_str x = name @ ''_playback_'' @ [channel ! n]"
      if "sprintf b (name @ ''_playback_'' @ [channel ! n]) = Inr x" "n < length channel" for b x
    proof -
      have "NUL \<notin> set (name @ ''_playback_'' @ [channel ! n])"
        using ch [OF that(2)] "1.prems"(2) by (auto simp: NUL_def)
      then show ?thesis
        using sprintf_cases [OF that(1)] c_str_terminated [of "name @ ''_playback_'' @ [channel ! n]"]
        by simp
    qed
    show ?thesis
      using "1.prems"(1)
      apply (subst (asm) register_ports_loop.simps)
      using True "1.prems"(2) "1.IH"
      apply (auto simp: Let_def up port_events_def cs1 [simplified] cs2 [simplified]
          simp del: append_assoc split: sum.splits if_splits)
      done
  qed
qed

lemma register_ports_no_abort:
  assumes "length name \<le> 20"
    and "length (input_port jack) = DEVICE_CHANNELS" and "length (output_port jack) = DEVICE_CHANNELS"
  shows "aborted (register_ports E jack name st) = None"
  using assms register_ports_loop_no_abort [of name "replicate PORT_NAME_LEN NUL" jack E 0 st]
  by (simp add: register_ports_def DEVICE_CHANNELS_def)

lemma port_name_overflow:
  assumes "20 < length name" and "length pn = PORT_NAME_LEN"
  shows "sprintf pn (name @ ''_timecode_'' @ [c]) = Inl OutOfBounds"
  using assms by (intro sprintf_Inl) (simp add: PORT_NAME_LEN_def)

lemma register_ports_ok:
  assumes "\<forall>tr nm. jack_port_register E tr nm \<noteq> None" and "length name \<le> 20"
    and "length (input_port jack) = DEVICE_CHANNELS" and "length (output_port jack) = DEVICE_CHANNELS"
  shows "\<exists>jack' st'. register_ports E jack name st = Inr ((0, jack'), st')"
  using register_ports_loop_ok [OF assms(1,2) _ assms(3,4), of "replicate PORT_NAME_LEN NUL" 0 st]
  by (simp add: register_ports_def DEVICE_CHANNELS_def)

lemma register_ports_overrun:
  assumes "20 < length name"
  shows "register_ports E jack name st = Inl (OutOfBounds, st)"
proof -
  have "sprintf (replicate PORT_NAME_LEN NUL) (name @ ''_timecode_'' @ [channel ! 0]) = Inl OutOfBounds"
    using assms by (intro port_name_overflow) simp_all
  then show ?thesis
    unfolding register_ports_def
    by (subst register_ports_loop.simps) (simp add: DEVICE_CHANNELS_def)
qed

lemma register_ports_success_name_length:
  assumes "register_ports E jack name st = Inr ((0, jack'), st')"
  shows "length name \<le> 20"
proof (rule ccontr)
  assume "\<not> length name \<le> 20"
  then have "register_ports E jack name st = Inl (OutOfBounds, st)"
    by (intro register_ports_overrun) simp
  with assms show False by simp
qed

subsection \<open>The claims on the port registration\<close>

text \<open>
  Claim C10 (the port-name buffer). The array \<^verbatim>\<open>port_name\<close> holds 32 bytes. For a
  deck name of at most 20 characters every byte \<^verbatim>\<open>sprintf\<close> writes for a
  \<open>_timecode_\<close> or a \<open>_playback_\<close> port name, the terminating zero byte included,
  lands inside the array: each \<^verbatim>\<open>sprintf\<close> returns and \<^verbatim>\<open>register_ports\<close>
  never ends with an access out of bounds.
\<close>

theorem port_name_writes_in_bounds:
  assumes "length name \<le> 20"
    and "length (input_port jack) = DEVICE_CHANNELS" and "length (output_port jack) = DEVICE_CHANNELS"
  shows "length (replicate PORT_NAME_LEN NUL) = 32
    \<and> aborted (register_ports E jack name st) = None
    \<and> (\<forall>c pn. length pn = PORT_NAME_LEN \<longrightarrow>
          (\<exists>pn'. sprintf pn (name @ ''_timecode_'' @ [c]) = Inr pn' \<and> length pn' = PORT_NAME_LEN)
        \<and> (\<exists>pn'. sprintf pn (name @ ''_playback_'' @ [c]) = Inr pn' \<and> length pn' = PORT_NAME_LEN))"
proof (intro conjI allI impI)
  show "length (replicate PORT_NAME_LEN NUL) = 32"
    by (simp add: PORT_NAME_LEN_def)
  show "aborted (register_ports E jack name st) = None"
    using assms by (rule register_ports_no_abort)
next
  fix c and pn :: "char list" assume l: "length pn = PORT_NAME_LEN"
  have t: "sprintf pn (name @ ''_timecode_'' @ [c]) =
      Inr ((name @ ''_timecode_'' @ [c]) @ NUL # drop (length name + 12) pn)"
    using assms(1) l by (rule sprintf_port_name(1))
  have "length ((name @ ''_timecode_'' @ [c]) @ NUL # drop (length name + 12) pn) = length pn"
    using t by (rule sprintf_length)
  then have "length ((name @ ''_timecode_'' @ [c]) @ NUL # drop (length name + 12) pn) = PORT_NAME_LEN"
    by (simp only: l)
  with t show "\<exists>pn'. sprintf pn (name @ ''_timecode_'' @ [c]) = Inr pn' \<and> length pn' = PORT_NAME_LEN"
    by (rule_tac exI, rule_tac conjI)
  have p: "sprintf pn (name @ ''_playback_'' @ [c]) =
      Inr ((name @ ''_playback_'' @ [c]) @ NUL # drop (length name + 12) pn)"
    using assms(1) l by (rule sprintf_port_name(2))
  have "length ((name @ ''_playback_'' @ [c]) @ NUL # drop (length name + 12) pn) = length pn"
    using p by (rule sprintf_length)
  then have "length ((name @ ''_playback_'' @ [c]) @ NUL # drop (length name + 12) pn) = PORT_NAME_LEN"
    by (simp only: l)
  with p show "\<exists>pn'. sprintf pn (name @ ''_playback_'' @ [c]) = Inr pn' \<and> length pn' = PORT_NAME_LEN"
    by (rule_tac exI, rule_tac conjI)
qed

theorem port_name_writes_in_bounds_witness:
  "length ''12345678901234567890'' = 20
   \<and> aborted (register_ports E_ok jack0 ''12345678901234567890'' (init_state Map.empty Map.empty)) = None"
  using port_name_writes_in_bounds [of "''12345678901234567890''" jack0 E_ok "init_state Map.empty Map.empty"]
  by (simp add: jack0_def)

text \<open>
  For a deck name that fits the array what claim C6 says holds. When
  \<^verbatim>\<open>register_ports\<close> returns 0 for a deck name (a C string: no zero byte inside), it
  has registered exactly four ports: the input ports \<open>name_timecode_L\<close> and
  \<open>name_timecode_R\<close> and the output ports \<open>name_playback_L\<close> and
  \<open>name_playback_R\<close>, with these names character for character. By
  \<open>register_ports_success_name_length\<close> the name then has at most 20 characters.
\<close>

theorem register_ports_port_names:
  assumes "register_ports E jack name st = Inr ((0, jack'), st')" and "NUL \<notin> set name"
  shows "trace st' = trace st @
     [Port_register (client st) (name @ ''_timecode_L'') JackPortIsInput,
      Port_register (client st) (name @ ''_playback_L'') JackPortIsOutput,
      Port_register (client st) (name @ ''_timecode_R'') JackPortIsInput,
      Port_register (client st) (name @ ''_playback_R'') JackPortIsOutput]"
proof -
  have "register_ports_loop E 0 (replicate PORT_NAME_LEN NUL) jack name st = Inr ((0, jack'), st')"
    using assms(1) by (simp add: register_ports_def DEVICE_CHANNELS_def)
  from register_ports_loop_trace [OF this assms(2)]
  have "trace st' = trace st @ concat (map (port_events (client st) name) [0..<2])"
    by (simp add: DEVICE_CHANNELS_def)
  moreover have "[0..<2] = [0, Suc 0]"
    by (simp add: upt_rec)
  ultimately show ?thesis
    by (simp add: port_events_def channel_def)
qed

theorem register_ports_port_names_witness:
  "ret_val (register_ports E_ok jack0 ''deck'' ((init_state Map.empty Map.empty)\<lparr>client := Some 7\<rparr>))
     \<noteq> None
   \<and> trace (end_state (register_ports E_ok jack0 ''deck'' ((init_state Map.empty Map.empty)\<lparr>client := Some 7\<rparr>))) =
     [Port_register (Some 7) ''deck_timecode_L'' JackPortIsInput,
      Port_register (Some 7) ''deck_playback_L'' JackPortIsOutput,
      Port_register (Some 7) ''deck_timecode_R'' JackPortIsInput,
      Port_register (Some 7) ''deck_playback_R'' JackPortIsOutput]"
proof -
  let ?s = "(init_state Map.empty Map.empty)\<lparr>client := Some 7\<rparr>"
  obtain jack' st' where r: "register_ports E_ok jack0 ''deck'' ?s = Inr ((0, jack'), st')"
    using register_ports_ok [of E_ok "''deck''" jack0 ?s] by (auto simp: E_ok_def jack0_def)
  have "NUL \<notin> set ''deck''"
    by (simp add: NUL_def)
  from register_ports_port_names [OF r this] r show ?thesis
    by (simp add: init_state_def)
qed

text \<open>
  Claim C6 (port names) is stated for every deck name string. \<^verbatim>\<open>register_ports\<close>
  formats each port name with \<^verbatim>\<open>sprintf\<close> into \<^verbatim>\<open>port_name[32]\<close> and checks no
  length: for a deck name of more than 20 characters (here one of 64) the first
  \<^verbatim>\<open>sprintf\<close> already writes past the end of the array, and the run leaves the array
  instead of registering the four ports and returning 0.
\<close>

theorem register_ports_long_name_overrun:
  "aborted (register_ports E_ok jack0 (replicate 64 (CHR ''a''))
      ((init_state Map.empty Map.empty)\<lparr>client := Some 7\<rparr>)) = Some OutOfBounds
   \<and> ret_val (register_ports E_ok jack0 (replicate 64 (CHR ''a''))
      ((init_state Map.empty Map.empty)\<lparr>client := Some 7\<rparr>)) = None"
  by (simp add: register_ports_overrun)

section \<open>Properties of the deck initialisation\<close>

lemmas eval_simps = jack_init_def start_jack_client_def E_ok_def init_state_def register_ports_def
  register_ports_loop.simps sprintf_def DEVICE_CHANNELS_def PORT_NAME_LEN_def MAX_DECKS_def
  channel_def Let_def c_str_def NUL_def dev_a_def

lemma register_ports_frame:
  "client (end_state (register_ports E jack name st)) = client st
   \<and> rate (end_state (register_ports E jack name st)) = rate st
   \<and> decks (end_state (register_ports E jack name st)) = decks st
   \<and> device (end_state (register_ports E jack name st)) = device st
   \<and> devices (end_state (register_ports E jack name st)) = devices st
   \<and> port_buffers (end_state (register_ports E jack name st)) = port_buffers st"
  using register_ports_loop_frame [of E 0 "replicate PORT_NAME_LEN NUL" jack name st]
  by (simp add: register_ports_def)

lemma register_ports_Inr_frame:
  assumes "register_ports E jack name st = Inr (v, st1)"
  shows "client st1 = client st" "rate st1 = rate st" "decks st1 = decks st"
    "device st1 = device st" "devices st1 = devices st" "port_buffers st1 = port_buffers st"
  using register_ports_frame [of E jack name st] assms by simp_all

lemma register_ports_Inl_frame:
  assumes "register_ports E jack name st = Inl (e, st1)"
  shows "client st1 = client st" "rate st1 = rate st" "decks st1 = decks st"
    "device st1 = device st" "devices st1 = devices st" "port_buffers st1 = port_buffers st"
  using register_ports_frame [of E jack name st] assms by simp_all

lemma start_jack_client_frame:
  assumes "start_jack_client E st = r"
  shows "aborted r = None" "decks (end_state r) = decks st" "device (end_state r) = device st"
    "devices (end_state r) = devices st" "port_buffers (end_state r) = port_buffers st"
  using assms by (auto simp: start_jack_client_def Let_def split: option.splits)

lemma start_jack_client_Inr_frame:
  assumes "start_jack_client E st = Inr (v, st1)"
  shows "decks st1 = decks st" "device st1 = device st"
    "devices st1 = devices st" "port_buffers st1 = port_buffers st"
  using start_jack_client_frame [OF assms] by simp_all


lemma jack_init_start:
  obtains r st0 where
    "(if client st = None then start_jack_client E st else Inr (0, st)) = Inr (r, st0)"
    "decks st0 = decks st" "device st0 = device st" "devices st0 = devices st"
    "port_buffers st0 = port_buffers st"
proof (cases "client st = None")
  case True
  obtain r st0 where s: "start_jack_client E st = Inr (r, st0)"
    using start_jack_client_frame(1) [OF refl, of E st]
    by (cases "start_jack_client E st") (auto simp: aborted_def split: prod.splits)
  have e: "(if client st = None then start_jack_client E st else Inr (0, st)) = Inr (r, st0)"
    using True s by simp
  show ?thesis
    by (rule that [OF e]) (simp_all add: start_jack_client_Inr_frame [OF s])
next
  case False
  then have e: "(if client st = None then start_jack_client E st else Inr (0, st)) = Inr (0, st)"
    by (simp only: if_False)
  show ?thesis
    by (rule that [OF e]) simp_all
qed

lemma jack_init_unfold:
  assumes "(if client st = None then start_jack_client E st else Inr (0, st)) = Inr (r, st0)"
  shows "jack_init E dv name st =
     (if r = - 1 then Inr (- 1, st0)
      else if \<not> malloc E (trace st0) then Inr (- 1, st0)
      else
        (case register_ports E jack0 name st0 of
           Inl x \<Rightarrow> Inl x
         | Inr ((r', jack), st1) \<Rightarrow>
             if r' = - 1 then Inr (- 1, st1)
             else
               (case devices st1 dv of
                  None \<Rightarrow> Inl (NullDeref, st1)
                | Some d \<Rightarrow>
                    (let st2 = st1\<lparr>devices := (devices st1)(dv \<mapsto>
                                 d\<lparr>local := Some jack, pollfds := None, handle := None,
                                   start_hook := Some Hook_start,
                                   stop_hook := Some Hook_stop,
                                   clear_hook := Some Hook_clear\<rparr>)\<rparr>
                     in
                     if \<not> decks st2 < MAX_DECKS then Inl (AssertFailed, st2)
                     else if \<not> decks st2 < length (device st2) then Inl (OutOfBounds, st2)
                     else Inr (0, st2\<lparr>device := (device st2)[decks st2 := Some dv],
                                      decks := decks st2 + 1\<rparr>)))))"
  unfolding jack_init_def jack0_def by (simp only: assms sum.case prod.case)

lemma start_jack_client_ok:
  assumes "fst (jack_client_open E (trace st)) \<noteq> None"
    and "jack_set_process_callback E (trace st @ [Client_open ''xwax'']) = 0"
  shows "\<exists>st1. start_jack_client E st = Inr (0, st1)"
  using assms by (auto simp: start_jack_client_def Let_def split: option.splits)

subsection \<open>The claims on failure and on capacity\<close>

text \<open>
  Claim C9 (failure leaves no mark). Whenever \<^verbatim>\<open>jack_init\<close> returns \<open>- 1\<close>,
  because the client could not be opened, the allocation failed or a port could not be
  registered, every device record is as before (so the record passed in has neither its
  \<^verbatim>\<open>local\<close> pointer nor its hooks set), and the registry is unchanged: no entry is
  appended and \<^verbatim>\<open>decks\<close> is the same.
\<close>

theorem jack_init_failure_leaves_device_and_registry:
  assumes "ret_val (jack_init E dv name st) = Some (- 1)"
  shows "devices (end_state (jack_init E dv name st)) = devices st
    \<and> device (end_state (jack_init E dv name st)) = device st
    \<and> decks (end_state (jack_init E dv name st)) = decks st"
proof -
  obtain r st0 where
    r0: "(if client st = None then start_jack_client E st else Inr (0, st)) = Inr (r, st0)"
    and f0: "decks st0 = decks st" "device st0 = device st" "devices st0 = devices st"
    by (rule jack_init_start)
  note u = jack_init_unfold [OF r0, of dv name]
  show ?thesis
  proof (cases "r = - 1 \<or> \<not> malloc E (trace st0)")
    case True
    then have "jack_init E dv name st = Inr (- 1, st0)"
      using u by auto
    then show ?thesis
      using f0 by simp
  next
    case False
    show ?thesis
    proof (cases "register_ports E jack0 name st0")
      case (Inl x)
      then have "ret_val (jack_init E dv name st) = None"
        using u False by simp
      then show ?thesis
        using assms by simp
    next
      case (Inr y)
      obtain r' jack st1 where y: "y = ((r', jack), st1)"
        by (cases y) auto
      note f1 = register_ports_Inr_frame [OF Inr [unfolded y]]
      show ?thesis
      proof (cases "r' = - 1")
        case True
        then have "jack_init E dv name st = Inr (- 1, st1)"
          using u False Inr y by simp
        then show ?thesis
          using f0 f1 by simp
      next
        case r': False
        have "ret_val (jack_init E dv name st) \<noteq> Some (- 1)"
          using u False Inr y r' by (simp add: Let_def split: option.splits)
        then show ?thesis
          using assms by simp
      qed
    qed
  qed
qed

theorem jack_init_failure_leaves_device_and_registry_witness:
  "ret_val (jack_init (E_ok\<lparr>jack_port_register := (\<lambda>tr nm. None)\<rparr>) 10 ''a''
      (init_state [10 \<mapsto> dev_a] Map.empty)) = Some (- 1)
   \<and> devices (end_state (jack_init (E_ok\<lparr>jack_port_register := (\<lambda>tr nm. None)\<rparr>) 10 ''a''
      (init_state [10 \<mapsto> dev_a] Map.empty))) 10 = Some dev_a
   \<and> device (end_state (jack_init (E_ok\<lparr>jack_port_register := (\<lambda>tr nm. None)\<rparr>) 10 ''a''
      (init_state [10 \<mapsto> dev_a] Map.empty))) = replicate MAX_DECKS None
   \<and> decks (end_state (jack_init (E_ok\<lparr>jack_port_register := (\<lambda>tr nm. None)\<rparr>) 10 ''a''
      (init_state [10 \<mapsto> dev_a] Map.empty))) = 0
   \<and> ret_val (jack_init (E_ok\<lparr>malloc := (\<lambda>tr. False)\<rparr>) 10 ''a''
      (init_state [10 \<mapsto> dev_a] Map.empty)) = Some (- 1)
   \<and> devices (end_state (jack_init (E_ok\<lparr>malloc := (\<lambda>tr. False)\<rparr>) 10 ''a''
      (init_state [10 \<mapsto> dev_a] Map.empty))) 10 = Some dev_a
   \<and> ret_val (jack_init (E_ok\<lparr>jack_client_open := (\<lambda>tr. (None, 1))\<rparr>) 10 ''a''
      (init_state [10 \<mapsto> dev_a] Map.empty)) = Some (- 1)
   \<and> devices (end_state (jack_init (E_ok\<lparr>jack_client_open := (\<lambda>tr. (None, 1))\<rparr>) 10 ''a''
      (init_state [10 \<mapsto> dev_a] Map.empty))) 10 = Some dev_a"
proof -
  let ?s = "init_state [10 \<mapsto> dev_a] Map.empty"
  have p: "ret_val (jack_init (E_ok\<lparr>jack_port_register := (\<lambda>tr nm. None)\<rparr>) 10 ''a'' ?s) = Some (- 1)"
    by (simp add: eval_simps)
  have m: "ret_val (jack_init (E_ok\<lparr>malloc := (\<lambda>tr. False)\<rparr>) 10 ''a'' ?s) = Some (- 1)"
    by (simp add: eval_simps)
  have c: "ret_val (jack_init (E_ok\<lparr>jack_client_open := (\<lambda>tr. (None, 1))\<rparr>) 10 ''a'' ?s) = Some (- 1)"
    by (simp add: eval_simps)
  show ?thesis
    using p m c
      jack_init_failure_leaves_device_and_registry [OF p]
      jack_init_failure_leaves_device_and_registry [OF m]
      jack_init_failure_leaves_device_and_registry [OF c]
    by (simp add: init_state_def)
qed

text \<open>
  Claim C5 (capacity). Let the set-up steps of \<^verbatim>\<open>jack_init\<close> succeed (the client is
  open or opens, the allocation succeeds, every port registers, the name fits). With fewer
  than \<open>MAX_DECKS = 4\<close> decks registered the call returns 0 and appends the device at
  index \<^verbatim>\<open>decks\<close>. With four decks registered the assertion \<^verbatim>\<open>decks < MAX_DECKS\<close>
  fails, and at that point no slot of the registry has been written: \<^verbatim>\<open>device\<close> and
  \<^verbatim>\<open>decks\<close> are unchanged, nothing is truncated or overwritten.
\<close>

theorem jack_init_capacity:
  assumes "client st \<noteq> None \<or>
      (\<forall>tr. fst (jack_client_open E tr) \<noteq> None \<and> jack_set_process_callback E tr = 0)"
    and "\<forall>tr. malloc E tr"
    and "\<forall>tr nm. jack_port_register E tr nm \<noteq> None"
    and "length name \<le> 20"
    and "devices st dv \<noteq> None"
    and "length (device st) = MAX_DECKS"
  shows "if decks st < MAX_DECKS
     then ret_val (jack_init E dv name st) = Some 0
        \<and> device (end_state (jack_init E dv name st)) = (device st)[decks st := Some dv]
        \<and> decks (end_state (jack_init E dv name st)) = decks st + 1
     else aborted (jack_init E dv name st) = Some AssertFailed
        \<and> device (end_state (jack_init E dv name st)) = device st
        \<and> decks (end_state (jack_init E dv name st)) = decks st"
proof -
  obtain r st0 where
    r0: "(if client st = None then start_jack_client E st else Inr (0, st)) = Inr (r, st0)"
    and f0: "decks st0 = decks st" "device st0 = device st" "devices st0 = devices st"
    by (rule jack_init_start)
  have r: "r = 0"
  proof (cases "client st = None")
    case True
    then obtain st1 where "start_jack_client E st = Inr (0, st1)"
      using assms(1) start_jack_client_ok [of E st] by auto
    then show ?thesis
      using r0 True by simp
  next
    case False
    then show ?thesis
      using r0 by (simp only: if_False) simp
  qed
  obtain jack' st1 where rp: "register_ports E jack0 name st0 = Inr ((0, jack'), st1)"
    using register_ports_ok [OF assms(3,4), of jack0 st0] by (auto simp: jack0_def)
  note f1 = register_ports_Inr_frame [OF rp]
  obtain d where d: "devices st1 dv = Some d"
    using assms(5) f0 f1 by auto
  show ?thesis
    using jack_init_unfold [OF r0, of dv name] r assms(2,6) rp d f0 f1
    by (simp add: Let_def)
qed

theorem jack_init_capacity_witness:
  "ret_val (jack_init E_ok 14 ''e'' ((init_state [14 \<mapsto> dev_a] Map.empty)
       \<lparr>client := Some 7, decks := 3, device := [Some 10, Some 11, Some 12, None]\<rparr>)) = Some 0
   \<and> device (end_state (jack_init E_ok 14 ''e'' ((init_state [14 \<mapsto> dev_a] Map.empty)
       \<lparr>client := Some 7, decks := 3, device := [Some 10, Some 11, Some 12, None]\<rparr>))) =
       [Some 10, Some 11, Some 12, Some 14]
   \<and> aborted (jack_init E_ok 14 ''e'' ((init_state [14 \<mapsto> dev_a] Map.empty)
       \<lparr>client := Some 7, decks := 4, device := [Some 10, Some 11, Some 12, Some 13]\<rparr>)) =
       Some AssertFailed
   \<and> device (end_state (jack_init E_ok 14 ''e'' ((init_state [14 \<mapsto> dev_a] Map.empty)
       \<lparr>client := Some 7, decks := 4, device := [Some 10, Some 11, Some 12, Some 13]\<rparr>))) =
       [Some 10, Some 11, Some 12, Some 13]
   \<and> decks (end_state (jack_init E_ok 14 ''e'' ((init_state [14 \<mapsto> dev_a] Map.empty)
       \<lparr>client := Some 7, decks := 4, device := [Some 10, Some 11, Some 12, Some 13]\<rparr>))) = 4"
  using
    jack_init_capacity [of "(init_state [14 \<mapsto> dev_a] Map.empty)
       \<lparr>client := Some 7, decks := 3, device := [Some 10, Some 11, Some 12, None]\<rparr>" E_ok "''e''" 14]
    jack_init_capacity [of "(init_state [14 \<mapsto> dev_a] Map.empty)
       \<lparr>client := Some 7, decks := 4, device := [Some 10, Some 11, Some 12, Some 13]\<rparr>" E_ok "''e''" 14]
  by (simp add: E_ok_def init_state_def MAX_DECKS_def)

subsection \<open>After a failure to start the client\<close>

lemma quiet_refl [simp]: "quiet_extension t t"
  by (simp add: quiet_extension_def)












text \<open>
  A failure to install the callback is a different matter: \<^verbatim>\<open>start_jack_client\<close>
  returns \<open>- 1\<close> with \<^verbatim>\<open>client\<close> already set, so the next call of
  \<^verbatim>\<open>jack_init\<close> skips the start-up and registers its deck on a client that has no
  process callback, with \<^verbatim>\<open>rate\<close> never read from the server.
\<close>

lemma jack_init_after_callback_failure:
  "ret_val (jack_init (E_ok\<lparr>jack_set_process_callback := (\<lambda>tr. 1)\<rparr>) 10 ''a''
      (init_state [10 \<mapsto> dev_a, 11 \<mapsto> dev_a] Map.empty)) = Some (- 1)
   \<and> ret_val (jack_init (E_ok\<lparr>jack_set_process_callback := (\<lambda>tr. 1)\<rparr>) 11 ''b''
      (end_state (jack_init (E_ok\<lparr>jack_set_process_callback := (\<lambda>tr. 1)\<rparr>) 10 ''a''
        (init_state [10 \<mapsto> dev_a, 11 \<mapsto> dev_a] Map.empty)))) = Some 0
   \<and> decks (end_state (jack_init (E_ok\<lparr>jack_set_process_callback := (\<lambda>tr. 1)\<rparr>) 11 ''b''
      (end_state (jack_init (E_ok\<lparr>jack_set_process_callback := (\<lambda>tr. 1)\<rparr>) 10 ''a''
        (init_state [10 \<mapsto> dev_a, 11 \<mapsto> dev_a] Map.empty))))) = 1
   \<and> rate (end_state (jack_init (E_ok\<lparr>jack_set_process_callback := (\<lambda>tr. 1)\<rparr>) 11 ''b''
      (end_state (jack_init (E_ok\<lparr>jack_set_process_callback := (\<lambda>tr. 1)\<rparr>) 10 ''a''
        (init_state [10 \<mapsto> dev_a, 11 \<mapsto> dev_a] Map.empty))))) = 0"
  by (simp add: eval_simps)

section \<open>Properties of the processing\<close>

subsection \<open>One deck and the loop over the decks\<close>

lemma get_buffers_two:
  assumes "m p0 = Some xs0" "m p1 = Some xs1" "length jbuf = 2"
  shows "get_buffers m [Some p0, Some p1] 0 jbuf = Inr [(p0, 0), (p1, 0)]"
proof -
  obtain a b where j: "jbuf = [a, b]"
    using assms(3) by (auto simp: length_Suc_conv numeral_2_eq_2)
  show ?thesis
    unfolding j
    apply (subst get_buffers.simps)
    apply (simp add: DEVICE_CHANNELS_def jack_port_get_buffer_def assms)
    apply (subst get_buffers.simps)
    apply (simp add: DEVICE_CHANNELS_def jack_port_get_buffer_def assms)
    apply (subst get_buffers.simps)
    apply (simp add: DEVICE_CHANNELS_def jack_port_get_buffer_def assms)
    done
qed

lemma process_deck_run:
  assumes dev: "devices st a = Some d" "local d = Some jack"
    and ports: "input_port jack = [Some pi0, Some pi1]" "output_port jack = [Some po0, Some po1]"
      "po0 \<noteq> po1"
    and ins: "port_buffers st pi0 = Some xs0" "port_buffers st pi1 = Some xs1"
      "nframes \<le> length xs0" "nframes \<le> length xs1"
    and outs: "port_buffers st po0 = Some ys0" "port_buffers st po1 = Some ys1"
      "nframes \<le> length ys0" "nframes \<le> length ys1"
    and n: "nframes \<le> 1024"
    and pl: "\<forall>tr p r. length (player_collect E tr p nframes r) = nframes * DEVICE_CHANNELS"
  shows "\<exists>buf zs0 zs1.
      process_deck E (Some a) nframes st =
        Inr ((), st\<lparr>trace := trace st @ Process_deck (Some a) nframes #
                   (case timecoder d of None \<Rightarrow> []
                    | Some tc \<Rightarrow> [Timecoder_submit tc buf nframes (rate st)]) @
                   [Player_collect (player d) nframes (rate st)],
                 port_buffers := (port_buffers st)(po0 \<mapsto> zs0, po1 \<mapsto> zs1)\<rparr>)
    \<and> length buf = BUF_LEN
    \<and> (\<forall>f<nframes. buf ! (2 * f) = to_short (xs0 ! f * real_of_int SCALE)
            \<and> buf ! (2 * f + 1) = to_short (xs1 ! f * real_of_int SCALE))
    \<and> length zs0 = length ys0 \<and> length zs1 = length ys1
    \<and> (\<forall>f<nframes.
          zs0 ! f = from_short (player_collect E
             (trace st @ Process_deck (Some a) nframes #
                (case timecoder d of None \<Rightarrow> []
                 | Some tc \<Rightarrow> [Timecoder_submit tc buf nframes (rate st)]))
             (player d) nframes (rate st) ! (2 * f))
        \<and> zs1 ! f = from_short (player_collect E
             (trace st @ Process_deck (Some a) nframes #
                (case timecoder d of None \<Rightarrow> []
                 | Some tc \<Rightarrow> [Timecoder_submit tc buf nframes (rate st)]))
             (player d) nframes (rate st) ! (2 * f + 1)))"
proof -
  let ?m = "port_buffers st"
  let ?st = "st\<lparr>trace := trace st @ [Process_deck (Some a) nframes]\<rparr>"
  have gb1: "get_buffers ?m (input_port jack) 0 (replicate DEVICE_CHANNELS (0, 0)) = Inr [(pi0, 0), (pi1, 0)]"
    unfolding ports using ins(1,2) by (rule get_buffers_two) (simp add: DEVICE_CHANNELS_def)
  have len0: "0 + 2 * nframes \<le> length (replicate BUF_LEN (0 :: s16))"
    using n by (simp add: BUF_LEN_def)
  from interleave_frames [OF ins(1,2), of 0 nframes 0 0 "replicate BUF_LEN 0"] ins(3,4) len0
  obtain buf where
    il: "interleave ?m (replicate BUF_LEN 0) 0 [(pi0, 0), (pi1, 0)] nframes =
           Inr (buf, 0 + 2 * nframes, [(pi0, 0 + nframes), (pi1, 0 + nframes)])"
    and lbuf: "length buf = length (replicate BUF_LEN (0 :: s16))"
    and vals: "\<forall>f<nframes. buf ! (0 + 2 * f) = to_short (xs0 ! (0 + f) * real_of_int SCALE)
             \<and> buf ! (0 + 2 * f + 1) = to_short (xs1 ! (0 + f) * real_of_int SCALE)"
    by auto
  let ?ev = "case timecoder d of None \<Rightarrow> []
             | Some tc \<Rightarrow> [Timecoder_submit tc buf nframes (rate st)]"
  let ?tr1 = "trace st @ Process_deck (Some a) nframes # ?ev"
  let ?st1 = "st\<lparr>trace := ?tr1\<rparr>"
  have st1: "(case timecoder d of None \<Rightarrow> ?st
             | Some tc \<Rightarrow> ?st\<lparr>trace := trace ?st @ [Timecoder_submit tc buf nframes (rate ?st)]\<rparr>) = ?st1"
    by (simp split: option.splits)
  have gb2: "get_buffers ?m (output_port jack) 0 [(pi0, 0 + nframes), (pi1, 0 + nframes)] = Inr [(po0, 0), (po1, 0)]"
    unfolding ports using outs(1,2) by (rule get_buffers_two) simp
  let ?pcm = "player_collect E ?tr1 (player d) nframes (rate st)"
  have lpcm: "length ?pcm = 2 * nframes"
    using pl by (simp add: DEVICE_CHANNELS_def)
  let ?buf' = "?pcm @ drop (length ?pcm) buf"
  have wp: "write_pcm buf ?pcm = Inr ?buf'"
    using lpcm lbuf n by (simp add: write_pcm_def BUF_LEN_def)
  have pre: "0 + nframes \<le> length ys0" "0 + nframes \<le> length ys1" "0 + 2 * nframes \<le> length ?buf'"
    using outs(3,4) lpcm by simp_all
  from uninterleave_frames [OF ports(3) outs(1,2) pre]
  obtain zs0 zs1 where
    ul: "uninterleave ?m [(po0, 0), (po1, 0)] ?buf' 0 nframes =
           Inr (?m(po0 \<mapsto> zs0, po1 \<mapsto> zs1), 0 + 2 * nframes, [(po0, 0 + nframes), (po1, 0 + nframes)])"
    and lz: "length zs0 = length ys0" "length zs1 = length ys1"
    and out: "\<forall>f<nframes. zs0 ! (0 + f) = from_short (?buf' ! (0 + 2 * f))
             \<and> zs1 ! (0 + f) = from_short (?buf' ! (0 + 2 * f + 1))"
    by blast
  have run: "process_deck E (Some a) nframes st =
      Inr ((), st\<lparr>trace := ?tr1 @ [Player_collect (player d) nframes (rate st)],
               port_buffers := ?m(po0 \<mapsto> zs0, po1 \<mapsto> zs1)\<rparr>)"
  proof (cases "timecoder d")
    case None
    show ?thesis
      using dev gb1 il gb2 wp ul None unfolding process_deck_def
      by (simp add: Let_def)
  next
    case (Some tc)
    show ?thesis
      using dev gb1 il gb2 wp ul Some unfolding process_deck_def
      by (simp add: Let_def)
  qed
  have outv: "\<forall>f<nframes. zs0 ! f = from_short (?pcm ! (2 * f))
        \<and> zs1 ! f = from_short (?pcm ! (2 * f + 1))"
    using out lpcm by (simp add: nth_append)
  have bufv: "\<forall>f<nframes. buf ! (2 * f) = to_short (xs0 ! f * real_of_int SCALE)
            \<and> buf ! (2 * f + 1) = to_short (xs1 ! f * real_of_int SCALE)"
    using vals by simp
  have lb: "length buf = BUF_LEN"
    using lbuf by simp
  from run lb bufv lz outv show ?thesis
    by (intro exI [of _ buf] exI [of _ zs0] exI [of _ zs1]) simp
qed


lemma process_deck_overrun:
  assumes dev: "devices st a = Some d" "local d = Some jack"
    and ports: "input_port jack = [Some pi0, Some pi1]"
    and ins: "port_buffers st pi0 = Some xs0" "port_buffers st pi1 = Some xs1"
      "nframes \<le> length xs0" "nframes \<le> length xs1"
    and n: "1024 < nframes"
  shows "process_deck E (Some a) nframes st =
     Inl (OutOfBounds, st\<lparr>trace := trace st @ [Process_deck (Some a) nframes]\<rparr>)"
proof -
  have gb1: "get_buffers (port_buffers st) (input_port jack) 0 (replicate DEVICE_CHANNELS (0, 0)) =
      Inr [(pi0, 0), (pi1, 0)]"
    unfolding ports using ins(1,2) by (rule get_buffers_two) (simp add: DEVICE_CHANNELS_def)
  have il: "interleave (port_buffers st) (replicate BUF_LEN 0) 0 [(pi0, 0), (pi1, 0)] nframes =
      Inl OutOfBounds"
    using ins(3,4) n by (intro interleave_overrun [OF ins(1,2)]) (simp_all add: BUF_LEN_def)
  show ?thesis
    using dev gb1 il unfolding process_deck_def by (simp add: Let_def)
qed

lemma buffer_readyD:
  "buffer_ready m n p \<Longrightarrow> \<exists>q xs. p = Some q \<and> m q = Some xs \<and> n \<le> length xs"
  by (auto simp: buffer_ready_def split: option.splits)

lemma deck_readyD:
  assumes "deck_ready st nframes dv"
  shows "\<exists>a d jack pi0 pi1 po0 po1 xs0 xs1 ys0 ys1.
      dv = Some a \<and> devices st a = Some d \<and> local d = Some jack
    \<and> input_port jack = [Some pi0, Some pi1] \<and> output_port jack = [Some po0, Some po1]
    \<and> po0 \<noteq> po1
    \<and> port_buffers st pi0 = Some xs0 \<and> port_buffers st pi1 = Some xs1
    \<and> nframes \<le> length xs0 \<and> nframes \<le> length xs1
    \<and> port_buffers st po0 = Some ys0 \<and> port_buffers st po1 = Some ys1
    \<and> nframes \<le> length ys0 \<and> nframes \<le> length ys1"
proof -
  from assms obtain a d jack where
    a: "dv = Some a" "devices st a = Some d" "local d = Some jack"
    and li: "length (input_port jack) = DEVICE_CHANNELS"
    and lo: "length (output_port jack) = DEVICE_CHANNELS"
    and rdy: "list_all (buffer_ready (port_buffers st) nframes) (input_port jack @ output_port jack)"
    and dis: "distinct (output_port jack)"
    by (auto simp: deck_ready_def split: option.splits)
  obtain i0 i1 where i: "input_port jack = [i0, i1]"
    using li by (auto simp: DEVICE_CHANNELS_def length_Suc_conv numeral_2_eq_2)
  obtain o0 o1 where o: "output_port jack = [o0, o1]"
    using lo by (auto simp: DEVICE_CHANNELS_def length_Suc_conv numeral_2_eq_2)
  have r: "buffer_ready (port_buffers st) nframes i0" "buffer_ready (port_buffers st) nframes i1"
    "buffer_ready (port_buffers st) nframes o0" "buffer_ready (port_buffers st) nframes o1"
    using rdy i o by simp_all
  from buffer_readyD [OF r(1)] obtain pi0 xs0 where
    p0: "i0 = Some pi0" "port_buffers st pi0 = Some xs0" "nframes \<le> length xs0"
    by blast
  from buffer_readyD [OF r(2)] obtain pi1 xs1 where
    p1: "i1 = Some pi1" "port_buffers st pi1 = Some xs1" "nframes \<le> length xs1"
    by blast
  from buffer_readyD [OF r(3)] obtain po0 ys0 where
    q0: "o0 = Some po0" "port_buffers st po0 = Some ys0" "nframes \<le> length ys0"
    by blast
  from buffer_readyD [OF r(4)] obtain po1 ys1 where
    q1: "o1 = Some po1" "port_buffers st po1 = Some ys1" "nframes \<le> length ys1"
    by blast
  have ne: "po0 \<noteq> po1"
    using dis o q0(1) q1(1) by auto
  show ?thesis
    apply (rule exI [of _ a], rule exI [of _ d], rule exI [of _ jack])
    apply (rule exI [of _ pi0], rule exI [of _ pi1], rule exI [of _ po0], rule exI [of _ po1])
    apply (rule exI [of _ xs0], rule exI [of _ xs1], rule exI [of _ ys0], rule exI [of _ ys1])
    using a i o p0 p1 q0 q1 ne apply simp
    done
qed

lemma deck_ready_preserved:
  assumes "devices st' = devices st"
    and "\<And>p xs. port_buffers st p = Some xs \<Longrightarrow>
           \<exists>xs'. port_buffers st' p = Some xs' \<and> length xs' = length xs"
    and "deck_ready st nframes dv"
  shows "deck_ready st' nframes dv"
proof -
  have b: "buffer_ready (port_buffers st') nframes p" if "buffer_ready (port_buffers st) nframes p" for p
  proof -
    from buffer_readyD [OF that] obtain q xs where
      q: "p = Some q" "port_buffers st q = Some xs" "nframes \<le> length xs"
      by blast
    from assms(2) [OF q(2)] obtain xs' where "port_buffers st' q = Some xs'" "length xs' = length xs"
      by blast
    with q show ?thesis
      by (simp add: buffer_ready_def)
  qed
  show ?thesis
    using assms(1,3) b
    by (auto simp: deck_ready_def list_all_iff split: option.splits)
qed

lemma process_deck_ready:
  assumes "deck_ready st nframes dv" and "nframes \<le> 1024"
    and "\<forall>tr p r. length (player_collect E tr p nframes r) = nframes * DEVICE_CHANNELS"
  shows "\<exists>st' tr. process_deck E dv nframes st = Inr ((), st')
    \<and> decks st' = decks st \<and> device st' = device st
    \<and> (\<forall>dv'. deck_ready st nframes dv' \<longrightarrow> deck_ready st' nframes dv')
    \<and> trace st' = trace st @ tr
    \<and> filter is_process_deck tr = [Process_deck dv nframes]"
proof -
  from deck_readyD [OF assms(1)] obtain a d jack pi0 pi1 po0 po1 xs0 xs1 ys0 ys1 where
    dv: "dv = Some a" and dev: "devices st a = Some d" "local d = Some jack"
    and ports: "input_port jack = [Some pi0, Some pi1]" "output_port jack = [Some po0, Some po1]"
      "po0 \<noteq> po1"
    and ins: "port_buffers st pi0 = Some xs0" "port_buffers st pi1 = Some xs1"
      "nframes \<le> length xs0" "nframes \<le> length xs1"
    and outs: "port_buffers st po0 = Some ys0" "port_buffers st po1 = Some ys1"
      "nframes \<le> length ys0" "nframes \<le> length ys1"
    by blast
  from process_deck_run [OF dev ports ins outs assms(2,3)]
  obtain buf zs0 zs1 where
    run: "process_deck E (Some a) nframes st =
        Inr ((), st\<lparr>trace := trace st @ Process_deck (Some a) nframes #
                   (case timecoder d of None \<Rightarrow> []
                    | Some tc \<Rightarrow> [Timecoder_submit tc buf nframes (rate st)]) @
                   [Player_collect (player d) nframes (rate st)],
                 port_buffers := (port_buffers st)(po0 \<mapsto> zs0, po1 \<mapsto> zs1)\<rparr>)"
    and lz: "length zs0 = length ys0" "length zs1 = length ys1"
    by blast
  let ?tr = "Process_deck (Some a) nframes #
                   (case timecoder d of None \<Rightarrow> []
                    | Some tc \<Rightarrow> [Timecoder_submit tc buf nframes (rate st)]) @
                   [Player_collect (player d) nframes (rate st)]"
  let ?st' = "st\<lparr>trace := trace st @ ?tr,
                 port_buffers := (port_buffers st)(po0 \<mapsto> zs0, po1 \<mapsto> zs1)\<rparr>"
  have keep: "\<exists>xs'. port_buffers ?st' p = Some xs' \<and> length xs' = length xs"
    if "port_buffers st p = Some xs" for p xs
    using that outs(1,2) lz by auto
  have "deck_ready ?st' nframes dv'" if "deck_ready st nframes dv'" for dv'
    by (rule deck_ready_preserved [OF _ keep that]) simp_all
  moreover have "filter is_process_deck ?tr = [Process_deck dv nframes]"
    using dv by (simp split: option.splits)
  ultimately show ?thesis
    using run dv by (intro exI [of _ ?st'] exI [of _ ?tr]) simp
qed

lemma process_callback_loop_run:
  "nframes \<le> 1024 \<Longrightarrow>
   \<forall>tr p r. length (player_collect E tr p nframes r) = nframes * DEVICE_CHANNELS \<Longrightarrow>
   decks st \<le> length (device st) \<Longrightarrow>
   \<forall>k. n \<le> k \<and> k < decks st \<longrightarrow> deck_ready st nframes (device st ! k) \<Longrightarrow>
   \<exists>st' tr. process_callback_loop E n nframes st = Inr ((), st')
     \<and> trace st' = trace st @ tr
     \<and> filter is_process_deck tr = map (\<lambda>k. Process_deck (device st ! k) nframes) [n..<decks st]"
proof (induction E n nframes st rule: process_callback_loop.induct)
  case (1 E n nframes st)
  show ?case
  proof (cases "n < decks st")
    case False
    then show ?thesis
      by (subst process_callback_loop.simps) simp
  next
    case True
    then have lt: "n < length (device st)"
      using "1.prems"(3) by simp
    have "deck_ready st nframes (device st ! n)"
      using "1.prems"(4) True by simp
    from process_deck_ready [OF this "1.prems"(1,2)]
    obtain st1 tr1 where
      pd: "process_deck E (device st ! n) nframes st = Inr ((), st1)"
      and f: "decks st1 = decks st" "device st1 = device st"
      and rdy: "\<forall>dv'. deck_ready st nframes dv' \<longrightarrow> deck_ready st1 nframes dv'"
      and tr1: "trace st1 = trace st @ tr1" "filter is_process_deck tr1 = [Process_deck (device st ! n) nframes]"
      by blast
    have p3: "decks st1 \<le> length (device st1)"
      using f "1.prems"(3) by simp
    have p4: "\<forall>k. Suc n \<le> k \<and> k < decks st1 \<longrightarrow> deck_ready st1 nframes (device st1 ! k)"
      using f rdy "1.prems"(4) by simp
    from "1.IH" [OF True lt pd refl "1.prems"(1,2) p3 p4]
    obtain st' tr where
      rest: "process_callback_loop E (Suc n) nframes st1 = Inr ((), st')"
      and tr: "trace st' = trace st1 @ tr"
        "filter is_process_deck tr = map (\<lambda>k. Process_deck (device st1 ! k) nframes) [Suc n..<decks st1]"
      by blast
    have loop: "process_callback_loop E n nframes st = Inr ((), st')"
      by (subst process_callback_loop.simps) (simp add: True lt pd rest)
    have "trace st' = trace st @ (tr1 @ tr)"
      using tr tr1 by simp
    moreover have "filter is_process_deck (tr1 @ tr) =
        map (\<lambda>k. Process_deck (device st ! k) nframes) [n..<decks st]"
      using tr tr1 f True by (simp add: upt_conv_Cons)
    ultimately show ?thesis
      using loop by blast
  qed
qed


lemma take_as_map_nth: "k \<le> length xs \<Longrightarrow> map (\<lambda>i. f (xs ! i)) [0..<k] = map f (take k xs)"
  by (simp add: list_eq_iff_nth_eq)

lemma two_decks_ready:
  "deck_ready two_decks 1 (Some 10)" "deck_ready two_decks 1 (Some 11)"
  by (simp_all add: deck_ready_def two_decks_def deck_a_def deck_b_def dev_a_def
      buffer_ready_def DEVICE_CHANNELS_def)

subsection \<open>The claims on the processing\<close>

text \<open>
  Claim C4, as the code has it. Let a deck have all four port buffers, of at least
  \<open>nframes\<close> samples each, with \<open>nframes \<le> 1024\<close>, and let the player write
  \<open>nframes\<close> frames. Then \<^verbatim>\<open>process_deck\<close> returns; it submits the interleaved
  input to the timecoder exactly once when the deck has a timecoder and not at all when
  it has none (the call stands under \<^verbatim>\<open>if(dv->timecoder)\<close>); it calls
  \<^verbatim>\<open>player_collect\<close> exactly once; and it writes all \<open>nframes\<close> frames of both
  output buffers, each sample being the player's 16-bit sample divided by 32768.
\<close>

theorem process_deck_calls_and_output:
  assumes "devices st a = Some d" and "local d = Some jack"
    and "input_port jack = [Some pi0, Some pi1]" and "output_port jack = [Some po0, Some po1]"
    and "po0 \<noteq> po1"
    and "port_buffers st pi0 = Some xs0" and "port_buffers st pi1 = Some xs1"
    and "nframes \<le> length xs0" and "nframes \<le> length xs1"
    and "port_buffers st po0 = Some ys0" and "port_buffers st po1 = Some ys1"
    and "nframes \<le> length ys0" and "nframes \<le> length ys1"
    and "nframes \<le> 1024"
    and "\<forall>tr p r. length (player_collect E tr p nframes r) = nframes * DEVICE_CHANNELS"
  shows "\<exists>st' buf tr1 zs0 zs1.
      process_deck E (Some a) nframes st = Inr ((), st')
    \<and> tr1 = trace st @ Process_deck (Some a) nframes #
              (case timecoder d of None \<Rightarrow> []
               | Some tc \<Rightarrow> [Timecoder_submit tc buf nframes (rate st)])
    \<and> trace st' = tr1 @ [Player_collect (player d) nframes (rate st)]
    \<and> length (filter is_timecoder_submit (drop (length (trace st)) (trace st'))) =
        (if timecoder d = None then 0 else 1)
    \<and> length (filter is_player_collect (drop (length (trace st)) (trace st'))) = 1
    \<and> (\<forall>f<nframes. buf ! (2 * f) = to_short (xs0 ! f * real_of_int SCALE)
            \<and> buf ! (2 * f + 1) = to_short (xs1 ! f * real_of_int SCALE))
    \<and> port_buffers st' po0 = Some zs0 \<and> port_buffers st' po1 = Some zs1
    \<and> length zs0 = length ys0 \<and> length zs1 = length ys1
    \<and> (\<forall>f<nframes.
          zs0 ! f = from_short (player_collect E tr1 (player d) nframes (rate st) ! (2 * f))
        \<and> zs1 ! f = from_short (player_collect E tr1 (player d) nframes (rate st) ! (2 * f + 1)))"
proof -
  from process_deck_run [OF assms]
  obtain buf zs0 zs1 where
    run: "process_deck E (Some a) nframes st =
        Inr ((), st\<lparr>trace := trace st @ Process_deck (Some a) nframes #
                   (case timecoder d of None \<Rightarrow> []
                    | Some tc \<Rightarrow> [Timecoder_submit tc buf nframes (rate st)]) @
                   [Player_collect (player d) nframes (rate st)],
                 port_buffers := (port_buffers st)(po0 \<mapsto> zs0, po1 \<mapsto> zs1)\<rparr>)"
    and bufv: "\<forall>f<nframes. buf ! (2 * f) = to_short (xs0 ! f * real_of_int SCALE)
            \<and> buf ! (2 * f + 1) = to_short (xs1 ! f * real_of_int SCALE)"
    and lz: "length zs0 = length ys0" "length zs1 = length ys1"
    and outv: "\<forall>f<nframes.
          zs0 ! f = from_short (player_collect E
             (trace st @ Process_deck (Some a) nframes #
                (case timecoder d of None \<Rightarrow> []
                 | Some tc \<Rightarrow> [Timecoder_submit tc buf nframes (rate st)]))
             (player d) nframes (rate st) ! (2 * f))
        \<and> zs1 ! f = from_short (player_collect E
             (trace st @ Process_deck (Some a) nframes #
                (case timecoder d of None \<Rightarrow> []
                 | Some tc \<Rightarrow> [Timecoder_submit tc buf nframes (rate st)]))
             (player d) nframes (rate st) ! (2 * f + 1))"
    by blast
  let ?tr1 = "trace st @ Process_deck (Some a) nframes #
              (case timecoder d of None \<Rightarrow> []
               | Some tc \<Rightarrow> [Timecoder_submit tc buf nframes (rate st)])"
  let ?st' = "st\<lparr>trace := ?tr1 @ [Player_collect (player d) nframes (rate st)],
                 port_buffers := (port_buffers st)(po0 \<mapsto> zs0, po1 \<mapsto> zs1)\<rparr>"
  have r: "process_deck E (Some a) nframes st = Inr ((), ?st')"
    using run by simp
  have t: "trace ?st' = ?tr1 @ [Player_collect (player d) nframes (rate st)]"
    by simp
  have c1: "length (filter is_timecoder_submit (drop (length (trace st)) (trace ?st'))) =
        (if timecoder d = None then 0 else 1)"
    by (simp split: option.splits)
  have c2: "length (filter is_player_collect (drop (length (trace st)) (trace ?st'))) = 1"
    by (simp split: option.splits)
  have p: "port_buffers ?st' po0 = Some zs0" "port_buffers ?st' po1 = Some zs1"
    using assms(5) by simp_all
  show ?thesis
    apply (rule exI [of _ ?st'], rule exI [of _ buf], rule exI [of _ ?tr1])
    apply (rule exI [of _ zs0], rule exI [of _ zs1])
    apply (intro conjI)
    apply (rule r)
    apply (rule refl)
    apply (rule t)
    apply (rule c1)
    apply (rule c2)
    apply (rule bufv)
    apply (rule p(1))
    apply (rule p(2))
    apply (rule lz(1))
    apply (rule lz(2))
    apply (rule outv)
    done
qed

theorem process_deck_calls_and_output_witness:
  "ret_val (process_deck E_ok (Some 10) 1 two_decks) = Some ()
   \<and> length (filter is_timecoder_submit (trace (end_state (process_deck E_ok (Some 10) 1 two_decks)))) = 1
   \<and> length (filter is_player_collect (trace (end_state (process_deck E_ok (Some 10) 1 two_decks)))) = 1
   \<and> map_option (\<lambda>zs. zs ! 0) (port_buffers (end_state (process_deck E_ok (Some 10) 1 two_decks)) 3) =
       Some (1 / 2)
   \<and> map_option (\<lambda>zs. zs ! 0) (port_buffers (end_state (process_deck E_ok (Some 10) 1 two_decks)) 4) =
       Some (1 / 2)"
proof -
  have "\<exists>st' buf tr1 zs0 zs1.
      process_deck E_ok (Some 10) 1 two_decks = Inr ((), st')
    \<and> tr1 = trace two_decks @ Process_deck (Some 10) 1 #
              (case timecoder deck_a of None \<Rightarrow> []
               | Some tc \<Rightarrow> [Timecoder_submit tc buf 1 (rate two_decks)])
    \<and> trace st' = tr1 @ [Player_collect (player deck_a) 1 (rate two_decks)]
    \<and> length (filter is_timecoder_submit (drop (length (trace two_decks)) (trace st'))) =
        (if timecoder deck_a = None then 0 else 1)
    \<and> length (filter is_player_collect (drop (length (trace two_decks)) (trace st'))) = 1
    \<and> (\<forall>f<1. buf ! (2 * f) = to_short ([1 / 2] ! f * real_of_int SCALE)
            \<and> buf ! (2 * f + 1) = to_short ([- 1 / 4] ! f * real_of_int SCALE))
    \<and> port_buffers st' 3 = Some zs0 \<and> port_buffers st' 4 = Some zs1
    \<and> length zs0 = length [0 :: real] \<and> length zs1 = length [0 :: real]
    \<and> (\<forall>f<1.
          zs0 ! f = from_short (player_collect E_ok tr1 (player deck_a) 1 (rate two_decks) ! (2 * f))
        \<and> zs1 ! f = from_short (player_collect E_ok tr1 (player deck_a) 1 (rate two_decks) ! (2 * f + 1)))"
    by (rule process_deck_calls_and_output
          [where jack = "\<lparr>input_port = [Some 1, Some 2], output_port = [Some 3, Some 4]\<rparr>"
             and ?pi0.0 = 1 and ?pi1.0 = 2])
      (simp_all add: two_decks_def deck_a_def dev_a_def E_ok_def)
  then obtain st' zs0 zs1 where
    r: "process_deck E_ok (Some 10) 1 two_decks = Inr ((), st')"
    and c: "length (filter is_timecoder_submit (drop (length (trace two_decks)) (trace st'))) =
        (if timecoder deck_a = None then 0 else 1)"
      "length (filter is_player_collect (drop (length (trace two_decks)) (trace st'))) = 1"
    and p: "port_buffers st' 3 = Some zs0" "port_buffers st' 4 = Some zs1"
    and z: "zs0 ! 0 = from_short (replicate (1 * DEVICE_CHANNELS) 16384 ! 0)"
      "zs1 ! 0 = from_short (replicate (1 * DEVICE_CHANNELS) 16384 ! Suc 0)"
    by (auto simp: E_ok_def)
  show ?thesis
    using r c p z
    by (simp add: two_decks_def deck_a_def dev_a_def E_ok_def from_short_def SCALE_def
        DEVICE_CHANNELS_def)
qed

text \<open>
  Claim C4 as stated asks for exactly one submit call for every deck. The second of the
  two decks has no timecoder: its processing returns and has made no submit call.
\<close>

theorem process_deck_no_submit_counterexample:
  "ret_val (process_deck E_ok (Some 11) 1 two_decks) = Some ()
   \<and> filter is_timecoder_submit (trace (end_state (process_deck E_ok (Some 11) 1 two_decks))) = []"
proof -
  have "\<exists>buf zs0 zs1.
      process_deck E_ok (Some 11) 1 two_decks =
        Inr ((), two_decks\<lparr>trace := trace two_decks @ Process_deck (Some 11) 1 #
                   (case timecoder deck_b of None \<Rightarrow> []
                    | Some tc \<Rightarrow> [Timecoder_submit tc buf 1 (rate two_decks)]) @
                   [Player_collect (player deck_b) 1 (rate two_decks)],
                 port_buffers := (port_buffers two_decks)(7 \<mapsto> zs0, 8 \<mapsto> zs1)\<rparr>)
    \<and> length buf = BUF_LEN
    \<and> (\<forall>f<1. buf ! (2 * f) = to_short ([1 / 8] ! f * real_of_int SCALE)
            \<and> buf ! (2 * f + 1) = to_short ([0] ! f * real_of_int SCALE))
    \<and> length zs0 = length [0 :: real] \<and> length zs1 = length [0 :: real]
    \<and> (\<forall>f<1.
          zs0 ! f = from_short (player_collect E_ok
             (trace two_decks @ Process_deck (Some 11) 1 #
                (case timecoder deck_b of None \<Rightarrow> []
                 | Some tc \<Rightarrow> [Timecoder_submit tc buf 1 (rate two_decks)]))
             (player deck_b) 1 (rate two_decks) ! (2 * f))
        \<and> zs1 ! f = from_short (player_collect E_ok
             (trace two_decks @ Process_deck (Some 11) 1 #
                (case timecoder deck_b of None \<Rightarrow> []
                 | Some tc \<Rightarrow> [Timecoder_submit tc buf 1 (rate two_decks)]))
             (player deck_b) 1 (rate two_decks) ! (2 * f + 1)))"
    by (rule process_deck_run
          [where jack = "\<lparr>input_port = [Some 5, Some 6], output_port = [Some 7, Some 8]\<rparr>"
             and ?pi0.0 = 5 and ?pi1.0 = 6])
      (simp_all add: two_decks_def deck_b_def dev_a_def E_ok_def)
  then obtain zs0 zs1 buf where
    "process_deck E_ok (Some 11) 1 two_decks =
        Inr ((), two_decks\<lparr>trace := trace two_decks @ Process_deck (Some 11) 1 #
                   (case timecoder deck_b of None \<Rightarrow> []
                    | Some tc \<Rightarrow> [Timecoder_submit tc buf 1 (rate two_decks)]) @
                   [Player_collect (player deck_b) 1 (rate two_decks)],
                 port_buffers := (port_buffers two_decks)(7 \<mapsto> zs0, 8 \<mapsto> zs1)\<rparr>)"
    by blast
  then show ?thesis
    by (simp add: two_decks_def deck_b_def dev_a_def)
qed

text \<open>
  For a cycle of at most 1024 frames what claim C3 says holds. Let the registry hold
  \<open>k \<le> 4\<close> decks, each ready for the cycle. Then \<^verbatim>\<open>process_callback\<close> returns 0,
  and \<^verbatim>\<open>process_deck\<close> has been entered exactly once per registered deck, in the
  order of registration.
\<close>

theorem process_callback_order:
  assumes "nframes \<le> 1024"
    and "\<forall>tr p r. length (player_collect E tr p nframes r) = nframes * DEVICE_CHANNELS"
    and "length (device st) = MAX_DECKS" and "decks st \<le> MAX_DECKS"
    and "\<forall>k<decks st. deck_ready st nframes (device st ! k)"
  shows "ret_val (process_callback E nframes st) = Some 0
    \<and> (\<exists>tr. trace (end_state (process_callback E nframes st)) = trace st @ tr
           \<and> filter is_process_deck tr =
               map (\<lambda>dv. Process_deck dv nframes) (take (decks st) (device st)))"
proof -
  have le: "decks st \<le> length (device st)"
    using assms(3,4) by simp
  have rdy: "\<forall>k. 0 \<le> k \<and> k < decks st \<longrightarrow> deck_ready st nframes (device st ! k)"
    using assms(5) by simp
  from process_callback_loop_run [OF assms(1,2) le rdy]
  obtain st' tr where
    loop: "process_callback_loop E 0 nframes st = Inr ((), st')"
    and tr: "trace st' = trace st @ tr"
      "filter is_process_deck tr = map (\<lambda>k. Process_deck (device st ! k) nframes) [0..<decks st]"
    by blast
  have "filter is_process_deck tr = map (\<lambda>dv. Process_deck dv nframes) (take (decks st) (device st))"
    using tr(2) take_as_map_nth [OF le, of "\<lambda>dv. Process_deck dv nframes"] by simp
  then show ?thesis
    using loop tr(1) by (simp add: process_callback_def)
qed

theorem process_callback_order_witness:
  "ret_val (process_callback E_ok 1 two_decks) = Some 0
   \<and> filter is_process_deck (trace (end_state (process_callback E_ok 1 two_decks))) =
       [Process_deck (Some 10) 1, Process_deck (Some 11) 1]"
proof -
  have h: "\<forall>k<decks two_decks. deck_ready two_decks 1 (device two_decks ! k)"
    using two_decks_ready by (simp add: two_decks_def less_Suc_eq numeral_2_eq_2)
  have "ret_val (process_callback E_ok 1 two_decks) = Some 0
    \<and> (\<exists>tr. trace (end_state (process_callback E_ok 1 two_decks)) = trace two_decks @ tr
           \<and> filter is_process_deck tr =
               map (\<lambda>dv. Process_deck dv 1) (take (decks two_decks) (device two_decks)))"
    by (rule process_callback_order [OF _ _ _ _ h])
      (simp_all add: E_ok_def two_decks_def MAX_DECKS_def)
  then show ?thesis
    by (auto simp: two_decks_def)
qed

text \<open>
  Claim C3 (deck ordering) is stated for every cycle frame count: the callback processes
  each registered deck once, in the order of registration, and returns 0. The array
  \<^verbatim>\<open>buf\<close> of \<^verbatim>\<open>process_deck\<close> holds 1024 frames and no frame count is checked
  against it. In a cycle of 2048 frames, with one deck registered and every port buffer
  there, \<^verbatim>\<open>interleave\<close> writes past the end of \<^verbatim>\<open>buf\<close> from frame 1024 on: the
  run leaves the array and the callback does not return 0.
\<close>

theorem process_callback_overrun:
  "aborted (process_callback E_ok 2048 wide_deck) = Some OutOfBounds
   \<and> ret_val (process_callback E_ok 2048 wide_deck) = None"
proof -
  have "process_deck E_ok (Some 10) 2048 wide_deck =
      Inl (OutOfBounds, wide_deck\<lparr>trace := trace wide_deck @ [Process_deck (Some 10) 2048]\<rparr>)"
    by (rule process_deck_overrun
          [where d = deck_a
             and jack = "\<lparr>input_port = [Some 1, Some 2], output_port = [Some 3, Some 4]\<rparr>"
             and ?pi0.0 = 1 and ?pi1.0 = 2
             and ?xs0.0 = "replicate 2048 0" and ?xs1.0 = "replicate 2048 0"])
      (simp_all add: wide_deck_def deck_a_def dev_a_def)
  moreover have "decks wide_deck = 1" "device wide_deck ! 0 = Some 10" "length (device wide_deck) = 4"
    by (simp_all add: wide_deck_def)
  ultimately show ?thesis
    unfolding process_callback_def
    by (subst (1 2) process_callback_loop.simps) simp
qed

end
